theory Spec2Isabelle
  imports Complex_Main
begin

section \<open>The document engine as the viewer uses it\<close>

text \<open>
  The viewer of \<^verbatim>\<open>src/pdf.py\<close> draws pages through PyMuPDF (imported as \<^verbatim>\<open>fitz\<close>) and
  Qt. Neither library belongs to the repository; the few operations the viewer calls are
  written out here after their documented behaviour. Python floats are modelled as reals,
  Python integers as \<open>int\<close>, and every exception the modelled code can raise is a value
  of type \<open>error\<close>.
\<close>

datatype error = ZeroDivisionError | IndexError | ValueError

text \<open>Python's \<^verbatim>\<open>a / b\<close> on floats raises when the divisor is zero.\<close>

definition py_truediv :: "real \<Rightarrow> real \<Rightarrow> error + real" where
  "py_truediv p q = (if q = 0 then Inl ZeroDivisionError else Inr (p / q))"

text \<open>Python's \<^verbatim>\<open>xs[i]\<close>: a negative index counts from the end, an index outside raises.\<close>

definition py_getitem :: "'a list \<Rightarrow> int \<Rightarrow> error + 'a" where
  "py_getitem xs i =
     (if 0 \<le> i \<and> i < int (length xs) then Inr (xs ! nat i)
      else if i < 0 \<and> - int (length xs) \<le> i then Inr (xs ! nat (int (length xs) + i))
      else Inl IndexError)"

text \<open>\<^verbatim>\<open>fitz.Rect(x0, y0, x1, y1)\<close> and the properties of it that the viewer reads.\<close>

datatype rect = Rect (x0: real) (y0: real) (x1: real) (y1: real)

definition width :: "rect \<Rightarrow> real" where
  "width r = max 0 (x1 r - x0 r)"

definition height :: "rect \<Rightarrow> real" where
  "height r = max 0 (y1 r - y0 r)"

definition is_empty :: "rect \<Rightarrow> bool" where
  "is_empty r = (x0 r \<ge> x1 r \<or> y0 r \<ge> y1 r)"

text \<open>\<^verbatim>\<open>rect * m\<close> for a number \<open>m\<close> multiplies the four coordinates.\<close>

definition rect_mul :: "rect \<Rightarrow> real \<Rightarrow> rect" where
  "rect_mul r m = Rect (x0 r * m) (y0 r * m) (x1 r * m) (y1 r * m)"

text \<open>
  \<^verbatim>\<open>fitz.Matrix(sx, sy)\<close> is the scaling matrix; a matrix \<open>(a, b, c, d, e, f)\<close> sends the
  point \<open>(x, y)\<close> to \<open>(a x + c y + e, b x + d y + f)\<close>.
\<close>

datatype matrix = Matrix (ma: real) (mb: real) (mc: real) (md: real) (me: real) (mf: real)

definition Matrix_scale :: "real \<Rightarrow> real \<Rightarrow> matrix" where
  "Matrix_scale sx sy = Matrix sx 0 0 sy 0 0"

text \<open>
  \<^verbatim>\<open>Matrix.prerotate(theta)\<close>: the angle is brought into \<open>[0, 360)\<close>; the four right angles
  are exact coefficient swaps, any other angle goes through sine and cosine.
\<close>

definition prerotate :: "matrix \<Rightarrow> int \<Rightarrow> matrix" where
  "prerotate m theta =
     (let th = theta mod 360 in
      if th = 0 then m
      else if th = 90 then Matrix (mc m) (md m) (- ma m) (- mb m) (me m) (mf m)
      else if th = 180 then Matrix (- ma m) (- mb m) (- mc m) (- md m) (me m) (mf m)
      else if th = 270 then Matrix (- mc m) (- md m) (ma m) (mb m) (me m) (mf m)
      else
        (let rad = real_of_int th * pi / 180; s = sin rad; c = cos rad
         in Matrix (c * ma m + s * mc m) (c * mb m + s * md m)
                   (- s * ma m + c * mc m) (- s * mb m + c * md m) (me m) (mf m)))"

definition transform_x :: "matrix \<Rightarrow> real \<Rightarrow> real \<Rightarrow> real" where
  "transform_x m x y = ma m * x + mc m * y + me m"

definition transform_y :: "matrix \<Rightarrow> real \<Rightarrow> real \<Rightarrow> real" where
  "transform_y m x y = mb m * x + md m * y + mf m"

text \<open>
  \<^verbatim>\<open>Rect.transform(m)\<close>: the smallest rectangle around the four transformed corners (the
  engine's answer for every finite rectangle with \<open>x0 \<le> x1\<close> and \<open>y0 \<le> y1\<close>).
\<close>

definition transform :: "rect \<Rightarrow> matrix \<Rightarrow> rect" where
  "transform r m =
     (let xs = [transform_x m (x0 r) (y0 r), transform_x m (x1 r) (y0 r),
                transform_x m (x0 r) (y1 r), transform_x m (x1 r) (y1 r)];
          ys = [transform_y m (x0 r) (y0 r), transform_y m (x1 r) (y0 r),
                transform_y m (x0 r) (y1 r), transform_y m (x1 r) (y1 r)]
      in Rect (Min (set xs)) (Min (set ys)) (Max (set xs)) (Max (set ys)))"

text \<open>
  A page of an open document: its rectangle, and the engine's text search and text
  extraction on it. A document is the list of its pages.
\<close>

record page =
  page_rect :: rect
  search_for :: "string \<Rightarrow> rect list"
  get_text :: "rect \<Rightarrow> string"

type_synonym document = "page list"

text \<open>
  \<^verbatim>\<open>Document.load_page(i)\<close> raises for an index past the last page. PyMuPDF also accepts
  negative indices, counted from the end; the viewer never stores one (\<^verbatim>\<open>display_page\<close>
  admits only \<open>0 \<le> page_num < page_count\<close>), and the model reports them like an index
  past the end.
\<close>

definition load_page :: "document \<Rightarrow> int \<Rightarrow> error + page" where
  "load_page d i = (if 0 \<le> i \<and> i < int (length d) then Inr (d ! nat i) else Inl ValueError)"

text \<open>\<^verbatim>\<open>QRectF(x, y, w, h)\<close> with its right and bottom edges.\<close>

datatype qrectf = QRectF (qx: real) (qy: real) (qwidth: real) (qheight: real)

definition right :: "qrectf \<Rightarrow> real" where
  "right q = qx q + qwidth q"

definition bottom :: "qrectf \<Rightarrow> real" where
  "bottom q = qy q + qheight q"

section \<open>The viewer's state\<close>

text \<open>
  Everything a method of \<^verbatim>\<open>PDFViewer\<close> does besides changing a field is recorded, in order,
  in the field \<open>trace\<close>: signals emitted, the debounce timer armed or stopped, worker
  threads interrupted, joined and started, the engine asked for text, the clipboard
  written, the document handle closed.
\<close>

datatype thread = PageRenderThread | ThumbnailLoaderThread

datatype event =
    Emit_page_changed
  | Emit_zoom_changed real
  | Emit_rotation_changed
  | Emit_copied_to_clipboard
  | Emit_search_results_updated int int
  | Render_timer_start
  | Render_timer_stop
  | RequestInterruption thread
  | Wait thread
  | Start_render int int real
  | Start_thumbnails int
  | Page_get_text int rect
  | Clipboard_setText string
  | Doc_close
  | Widget_close

text \<open>A highlight item of the scene: its rectangle, and whether it marks the active match.\<close>

datatype highlight = Highlight qrectf bool

text \<open>
  The fields of \<^verbatim>\<open>PDFViewer.__init__\<close>. The two thread fields hold whether a thread object
  exists and \<^verbatim>\<open>isRunning()\<close>; \<open>viewport_width\<close> and \<open>viewport_height\<close> are the size of
  \<^verbatim>\<open>self.view.viewport()\<close>; \<open>highlights\<close> are the rectangle items of the scene other than
  the selection rubber band.
\<close>

record viewer =
  file_path :: string
  doc :: "document option"
  current_page_index :: int
  rotation :: int
  base_scale :: real
  current_zoom_factor :: real
  current_render_scale :: real
  page_render_thread_running :: bool
  thumbnail_loader_running :: bool
  search_results :: "(int \<times> rect) list"
  current_search_index :: int
  viewport_width :: int
  viewport_height :: int
  highlights :: "highlight list"
  trace :: "event list"

definition emit :: "event \<Rightarrow> viewer \<Rightarrow> viewer" where
  "emit e s = s\<lparr>trace := trace s @ [e]\<rparr>"

text \<open>
  \<^verbatim>\<open>if self.doc\<close>: a \<^verbatim>\<open>fitz.Document\<close> has a length (the source itself calls
  \<^verbatim>\<open>len(self.doc)\<close>), so Python takes it for true when it is not \<^verbatim>\<open>None\<close> and has at
  least one page.
\<close>

definition doc_truthy :: "viewer \<Rightarrow> bool" where
  "doc_truthy s = (case doc s of None \<Rightarrow> False | Some d \<Rightarrow> d \<noteq> [])"

definition page_count :: "viewer \<Rightarrow> int" where
  "page_count s = (case doc s of None \<Rightarrow> 0 | Some d \<Rightarrow> if d \<noteq> [] then int (length d) else 0)"

text \<open>What a call added to the trace.\<close>

definition emitted :: "viewer \<Rightarrow> viewer \<Rightarrow> event list" where
  "emitted s s' = drop (length (trace s)) (trace s')"

section \<open>Rendering requests\<close>

text \<open>
  \<^verbatim>\<open>_render_page\<close>: joins a running render thread, loads the current page and starts a new
  thread at \<open>base_scale * current_zoom_factor\<close>. (The viewport widget always exists once
  the viewer is built, so only the document test of the guard can fail.)
\<close>

definition render_page :: "viewer \<Rightarrow> error + viewer" where
  "render_page s =
     (case doc s of
        None \<Rightarrow> Inr s
      | Some d \<Rightarrow>
          if d = [] then Inr s
          else
            (let s1 = (if page_render_thread_running s
                       then (emit (Wait PageRenderThread)
                              (emit (RequestInterruption PageRenderThread) s))
                            \<lparr>page_render_thread_running := False\<rparr>
                       else s)
             in case load_page d (current_page_index s1) of
                  Inl e \<Rightarrow> Inl e
                | Inr pg \<Rightarrow>
                    (let final_scale = base_scale s1 * current_zoom_factor s1
                     in Inr ((emit (Start_render (current_page_index s1) (rotation s1) final_scale) s1)
                              \<lparr>page_render_thread_running := True\<rparr>))))"

definition request_render :: "bool \<Rightarrow> viewer \<Rightarrow> error + viewer" where
  "request_render immediate s =
     (if immediate then render_page (emit Render_timer_stop s)
      else Inr (emit Render_timer_start s))"

text \<open>
  The matrix of \<^verbatim>\<open>PageRenderThread.run\<close>, under which the engine draws the page bitmap:
  \<^verbatim>\<open>fitz.Matrix(self.scale, self.scale).prerotate(self.rotation)\<close>.
\<close>

definition render_matrix :: "real \<Rightarrow> int \<Rightarrow> matrix" where
  "render_matrix scale rot = prerotate (Matrix_scale scale scale) rot"

section \<open>Zoom\<close>

definition set_zoom_factor :: "viewer \<Rightarrow> real \<Rightarrow> error + viewer" where
  "set_zoom_factor s factor =
     (let new_factor = max 0.1 (min factor 15.0)
      in if \<bar>new_factor - current_zoom_factor s\<bar> > 0.01
         then request_render False
                (emit (Emit_zoom_changed new_factor) (s\<lparr>current_zoom_factor := new_factor\<rparr>))
         else Inr s)"

definition handle_wheel_zoom :: "viewer \<Rightarrow> real \<Rightarrow> error + viewer" where
  "handle_wheel_zoom s factor = set_zoom_factor s (current_zoom_factor s * factor)"

definition zoom_in :: "viewer \<Rightarrow> error + viewer" where
  "zoom_in s = set_zoom_factor s (current_zoom_factor s * 1.25)"

definition zoom_out :: "viewer \<Rightarrow> error + viewer" where
  "zoom_out s = set_zoom_factor s (current_zoom_factor s / 1.25)"

text \<open>The spec's \<open>clamp(x, 0.1, 15.0)\<close>.\<close>

definition clamp_zoom :: "real \<Rightarrow> real" where
  "clamp_zoom x = max 0.1 (min x 15.0)"

section \<open>Rotation and fitting\<close>

text \<open>
  \<^verbatim>\<open>_recalculate_base_scale_and_render\<close>: the base scale makes the rotated page fit the
  viewport; pages with an empty rectangle leave everything as it is.
\<close>

definition recalculate_base_scale_and_render :: "viewer \<Rightarrow> error + viewer" where
  "recalculate_base_scale_and_render s =
     (case doc s of
        None \<Rightarrow> Inr s
      | Some d \<Rightarrow>
          if d = [] then Inr s
          else
            (case load_page d (current_page_index s) of
               Inl e \<Rightarrow> Inl e
             | Inr pg \<Rightarrow>
                 if is_empty (page_rect pg) then Inr s
                 else
                   (let pr = transform (page_rect pg) (prerotate (Matrix_scale 1 1) (rotation s))
                    in if width pr = 0 \<or> height pr = 0 then Inr s
                       else
                         (let scale_x = real_of_int (viewport_width s) / width pr;
                              scale_y = real_of_int (viewport_height s) / height pr
                          in request_render False (s\<lparr>base_scale := min scale_x scale_y\<rparr>)))))"

definition rotate_view :: "viewer \<Rightarrow> int \<Rightarrow> error + viewer" where
  "rotate_view s angle =
     (case recalculate_base_scale_and_render (s\<lparr>rotation := (rotation s + angle) mod 360\<rparr>) of
        Inl e \<Rightarrow> Inl e
      | Inr s' \<Rightarrow> Inr (emit Emit_rotation_changed s'))"

definition fit_to_page :: "viewer \<Rightarrow> error + viewer" where
  "fit_to_page s =
     recalculate_base_scale_and_render
       (emit (Emit_zoom_changed 1.0) (s\<lparr>current_zoom_factor := 1.0\<rparr>))"

definition resizeEvent :: "viewer \<Rightarrow> int \<Rightarrow> int \<Rightarrow> error + viewer" where
  "resizeEvent s w h =
     recalculate_base_scale_and_render (s\<lparr>viewport_width := w, viewport_height := h\<rparr>)"

section \<open>Page display\<close>

definition display_page :: "viewer \<Rightarrow> int \<Rightarrow> error + viewer" where
  "display_page s page_num =
     (if \<not> doc_truthy s \<or> \<not> (0 \<le> page_num \<and> page_num < page_count s) then Inr s
      else if current_page_index s \<noteq> page_num then
        (case request_render True (s\<lparr>current_page_index := page_num\<rparr>) of
           Inl e \<Rightarrow> Inl e
         | Inr s' \<Rightarrow> Inr (emit Emit_page_changed s'))
      else fit_to_page s)"

section \<open>Search highlights\<close>

text \<open>
  The loop of \<^verbatim>\<open>_update_highlights\<close> over \<^verbatim>\<open>enumerate(self.search_results)\<close>: a match on
  the displayed page becomes a scene rectangle at \<^verbatim>\<open>rect * self.current_render_scale\<close>.
\<close>

fun highlight_loop :: "int \<Rightarrow> (int \<times> rect) list \<Rightarrow> int \<Rightarrow> real \<Rightarrow> int \<Rightarrow> highlight list" where
  "highlight_loop i [] cur_page scale cur_idx = []"
| "highlight_loop i ((p_num, r) # rest) cur_page scale cur_idx =
     (if p_num = cur_page
      then (let highlight_rect = rect_mul r scale
            in [Highlight (QRectF (x0 highlight_rect) (y0 highlight_rect)
                                  (width highlight_rect) (height highlight_rect))
                          (i = cur_idx)])
      else [])
     @ highlight_loop (i + 1) rest cur_page scale cur_idx"

definition update_highlights :: "viewer \<Rightarrow> error + viewer" where
  "update_highlights s =
     (let s0 = s\<lparr>highlights := []\<rparr>
      in if search_results s0 = [] \<or> current_search_index s0 < 0 then Inr s0
         else
           (case py_getitem (search_results s0) (current_search_index s0) of
              Inl e \<Rightarrow> Inl e
            | Inr (current_page_of_search, r) \<Rightarrow>
                if current_page_of_search \<noteq> current_page_index s0 then Inr s0
                else Inr (s0\<lparr>highlights :=
                            highlight_loop 0 (search_results s0) (current_page_index s0)
                              (current_render_scale s0) (current_search_index s0)\<rparr>)))"

text \<open>
  \<^verbatim>\<open>_on_page_ready\<close>: the render thread's result arrives with the scale it was made at.
  Setting the new pixmap clears the scene; the highlights are then placed again. (The
  scroll bar moves are presentation only and left out.)
\<close>

definition on_page_ready :: "viewer \<Rightarrow> real \<Rightarrow> error + viewer" where
  "on_page_ready s scale = update_highlights (s\<lparr>current_render_scale := scale, highlights := []\<rparr>)"

section \<open>Text selection\<close>

text \<open>
  The four divisions inside the \<^verbatim>\<open>try\<close> block of \<^verbatim>\<open>_on_text_selected\<close>, evaluated left to right.
\<close>

definition scene_rect_to_pdf_rect :: "qrectf \<Rightarrow> real \<Rightarrow> error + rect" where
  "scene_rect_to_pdf_rect scene_rect scale =
     (case py_truediv (qx scene_rect) scale of Inl e \<Rightarrow> Inl e | Inr rx0 \<Rightarrow>
      case py_truediv (qy scene_rect) scale of Inl e \<Rightarrow> Inl e | Inr ry0 \<Rightarrow>
      case py_truediv (right scene_rect) scale of Inl e \<Rightarrow> Inl e | Inr rx1 \<Rightarrow>
      case py_truediv (bottom scene_rect) scale of Inl e \<Rightarrow> Inl e | Inr ry1 \<Rightarrow>
        Inr (Rect rx0 ry0 rx1 ry1))"

text \<open>Lines 468-469: the rotation is undone unless it is zero.\<close>

definition undo_rotation :: "rect \<Rightarrow> int \<Rightarrow> rect" where
  "undo_rotation pdf_rect rot =
     (if rot \<noteq> 0 then transform pdf_rect (prerotate (Matrix_scale 1 1) (- rot)) else pdf_rect)"

text \<open>Python's \<^verbatim>\<open>str.strip()\<close> on the whitespace characters of ASCII.\<close>

definition is_space :: "char \<Rightarrow> bool" where
  "is_space ch = (ch \<in> set [CHR 0x20, CHR 0x09, CHR 0x0A, CHR 0x0B, CHR 0x0C, CHR 0x0D,
                              CHR 0x1C, CHR 0x1D, CHR 0x1E, CHR 0x1F])"

definition py_strip :: "string \<Rightarrow> string" where
  "py_strip t = rev (dropWhile is_space (rev (dropWhile is_space t)))"

definition on_text_selected :: "viewer \<Rightarrow> qrectf \<Rightarrow> error + viewer" where
  "on_text_selected s scene_rect =
     (case doc s of
        None \<Rightarrow> Inr s
      | Some d \<Rightarrow>
          if d = [] then Inr s
          else
            (case scene_rect_to_pdf_rect scene_rect (current_render_scale s) of
               Inl ZeroDivisionError \<Rightarrow> Inr s
             | Inl e \<Rightarrow> Inl e
             | Inr pdf_rect0 \<Rightarrow>
                 (case load_page d (current_page_index s) of
                    Inl e \<Rightarrow> Inl e
                  | Inr pg \<Rightarrow>
                      (let pdf_rect = undo_rotation pdf_rect0 (rotation s);
                           selected_text = get_text pg pdf_rect;
                           s1 = emit (Page_get_text (current_page_index s) pdf_rect) s
                       in if selected_text \<noteq> []
                          then Inr (emit Emit_copied_to_clipboard
                                     (emit (Clipboard_setText (py_strip selected_text)) s1))
                          else Inr s1))))"

section \<open>Search\<close>

definition go_to_result :: "viewer \<Rightarrow> int \<Rightarrow> error + viewer" where
  "go_to_result s index =
     (if \<not> (0 \<le> index \<and> index < int (length (search_results s))) then Inr s
      else
        (let s1 = s\<lparr>current_search_index := index\<rparr>
         in case py_getitem (search_results s1) index of
              Inl e \<Rightarrow> Inl e
            | Inr (page_num, r) \<Rightarrow>
                (case (if page_num \<noteq> current_page_index s1 then display_page s1 page_num
                       else update_highlights s1) of
                   Inl e \<Rightarrow> Inl e
                 | Inr s2 \<Rightarrow>
                     Inr (emit (Emit_search_results_updated (current_search_index s2 + 1)
                                  (int (length (search_results s2)))) s2))))"

text \<open>
  The two nested loops of \<^verbatim>\<open>search_text\<close>: the inner one appends \<^verbatim>\<open>(i, rect)\<close> for each
  rectangle the engine returned for page \<open>i\<close>, the outer one runs \<open>i\<close> over
  \<^verbatim>\<open>range(self.page_count())\<close>.
\<close>

fun append_rects :: "(int \<times> rect) list \<Rightarrow> int \<Rightarrow> rect list \<Rightarrow> (int \<times> rect) list" where
  "append_rects acc i [] = acc"
| "append_rects acc i (r # rects) = append_rects (acc @ [(i, r)]) i rects"

function search_pages :: "document \<Rightarrow> string \<Rightarrow> int \<Rightarrow> int \<Rightarrow> (int \<times> rect) list
                            \<Rightarrow> error + (int \<times> rect) list" where
  "search_pages d txt i n acc =
     (if i < n then
        (case load_page d i of
           Inl e \<Rightarrow> Inl e
         | Inr pg \<Rightarrow> search_pages d txt (i + 1) n (append_rects acc i (search_for pg txt)))
      else Inr acc)"
  by pat_completeness auto
termination
  by (relation "measure (\<lambda>(d, txt, i, n, acc). nat (n - i))") auto

declare search_pages.simps [simp del]

definition search_text :: "viewer \<Rightarrow> string \<Rightarrow> error + viewer" where
  "search_text s txt =
     (let s1 = s\<lparr>search_results := [], current_search_index := - 1\<rparr>
      in if txt = [] then
           (case update_highlights s1 of
              Inl e \<Rightarrow> Inl e
            | Inr s2 \<Rightarrow> Inr (emit (Emit_search_results_updated 0 0) s2))
         else
           (case search_pages (case doc s1 of None \<Rightarrow> [] | Some d \<Rightarrow> d) txt 0 (page_count s1) [] of
              Inl e \<Rightarrow> Inl e
            | Inr found \<Rightarrow>
                (let s2 = s1\<lparr>search_results := found\<rparr>
                 in case (if search_results s2 \<noteq> []
                          then go_to_result (s2\<lparr>current_search_index := 0\<rparr>) 0
                          else Inr s2) of
                      Inl e \<Rightarrow> Inl e
                    | Inr s3 \<Rightarrow>
                        Inr (emit (Emit_search_results_updated
                                     (if search_results s3 \<noteq> [] then current_search_index s3 + 1 else 0)
                                     (int (length (search_results s3)))) s3))))"

text \<open>
  \<^verbatim>\<open>MainWindow._go_to_next_result\<close> and \<^verbatim>\<open>_go_to_prev_result\<close>, on the current viewer
  (\<open>None\<close> when no tab is open).
\<close>

definition go_to_next_result :: "viewer option \<Rightarrow> error + viewer option" where
  "go_to_next_result cur =
     (case cur of
        None \<Rightarrow> Inr None
      | Some v \<Rightarrow>
          if search_results v \<noteq> [] then
            (let new_index = (current_search_index v + 1) mod int (length (search_results v))
             in case go_to_result v new_index of Inl e \<Rightarrow> Inl e | Inr v' \<Rightarrow> Inr (Some v'))
          else Inr (Some v))"

definition go_to_prev_result :: "viewer option \<Rightarrow> error + viewer option" where
  "go_to_prev_result cur =
     (case cur of
        None \<Rightarrow> Inr None
      | Some v \<Rightarrow>
          if search_results v \<noteq> [] then
            (let new_index = (current_search_index v - 1 + int (length (search_results v)))
                               mod int (length (search_results v))
             in case go_to_result v new_index of Inl e \<Rightarrow> Inl e | Inr v' \<Rightarrow> Inr (Some v'))
          else Inr (Some v))"

section \<open>Closing a viewer\<close>

definition close :: "viewer \<Rightarrow> viewer" where
  "close s =
     (let s1 = (if thumbnail_loader_running s
                then (emit (Wait ThumbnailLoaderThread)
                       (emit (RequestInterruption ThumbnailLoaderThread) s))
                     \<lparr>thumbnail_loader_running := False\<rparr>
                else s);
          s2 = (if page_render_thread_running s1
                then (emit (Wait PageRenderThread)
                       (emit (RequestInterruption PageRenderThread) s1))
                     \<lparr>page_render_thread_running := False\<rparr>
                else s1);
          s3 = (if doc_truthy s2 then emit Doc_close s2 else s2)
      in emit Widget_close s3)"

text \<open>
  Reading a trace: which of the two workers (thumbnail loader, render thread) is running
  after an event, given which were running before it. \<^verbatim>\<open>QThread.wait()\<close> returns when the
  thread has finished.
\<close>

fun replay :: "bool \<times> bool \<Rightarrow> event \<Rightarrow> bool \<times> bool" where
  "replay (th, rd) (Wait ThumbnailLoaderThread) = (False, rd)"
| "replay (th, rd) (Wait PageRenderThread) = (th, False)"
| "replay (th, rd) (Start_thumbnails rot) = (True, rd)"
| "replay (th, rd) (Start_render p rot sc) = (th, True)"
| "replay (th, rd) e = (th, rd)"

text \<open>Every \<open>Doc_close\<close> of the trace happens while neither worker is running.\<close>

fun doc_close_safe :: "bool \<times> bool \<Rightarrow> event list \<Rightarrow> bool" where
  "doc_close_safe st [] = True"
| "doc_close_safe st (e # es) =
     ((if e = Doc_close then \<not> fst st \<and> \<not> snd st else True) \<and> doc_close_safe (replay st e) es)"

text \<open>The first occurrence of \<open>e1\<close> in a trace comes before the first occurrence of \<open>e2\<close>.\<close>

fun first_index :: "event \<Rightarrow> event list \<Rightarrow> nat option" where
  "first_index e [] = None"
| "first_index e (x # xs) =
     (if x = e then Some 0 else (case first_index e xs of None \<Rightarrow> None | Some k \<Rightarrow> Some (Suc k)))"

definition precedes :: "event \<Rightarrow> event \<Rightarrow> event list \<Rightarrow> bool" where
  "precedes e1 e2 evs =
     (case (first_index e1 evs, first_index e2 evs) of
        (Some j, Some k) \<Rightarrow> j < k
      | _ \<Rightarrow> False)"

section \<open>Tabs\<close>

text \<open>
  \<^verbatim>\<open>PDFViewer.__init__\<close>: \<open>d\<close> is what \<^verbatim>\<open>fitz.open(file_path)\<close> gave (\<open>None\<close> when it raised).
  The viewport has no size before the widget is laid out.
\<close>

definition new_viewer :: "string \<Rightarrow> document option \<Rightarrow> viewer" where
  "new_viewer p d =
     \<lparr>file_path = p, doc = d, current_page_index = 0, rotation = 0, base_scale = 1.0,
      current_zoom_factor = 1.0, current_render_scale = 1.0,
      page_render_thread_running = False, thumbnail_loader_running = False,
      search_results = [], current_search_index = - 1,
      viewport_width = 0, viewport_height = 0, highlights = [], trace = []\<rparr>"

text \<open>\<^verbatim>\<open>MainWindow._refresh_thumbnails\<close> on the current viewer: the loader is restarted.\<close>

definition refresh_thumbnails :: "viewer \<Rightarrow> viewer" where
  "refresh_thumbnails v =
     (let v1 = (if thumbnail_loader_running v
                then (emit (Wait ThumbnailLoaderThread)
                       (emit (RequestInterruption ThumbnailLoaderThread) v))
                     \<lparr>thumbnail_loader_running := False\<rparr>
                else v)
      in (emit (Start_thumbnails (rotation v1)) v1)\<lparr>thumbnail_loader_running := True\<rparr>)"

text \<open>The tab widget: the viewers in tab order and the index of the current tab.\<close>

record main_window =
  tabs :: "viewer list"
  current_index :: int

definition no_tabs :: main_window where
  "no_tabs = \<lparr>tabs = [], current_index = - 1\<rparr>"

text \<open>The loop of \<^verbatim>\<open>_add_new_tab\<close> over \<^verbatim>\<open>range(self.tab_widget.count())\<close>.\<close>

fun find_tab :: "viewer list \<Rightarrow> string \<Rightarrow> int \<Rightarrow> int option" where
  "find_tab [] p i = None"
| "find_tab (v # vs) p i = (if file_path v = p then Some i else find_tab vs p (i + 1))"

text \<open>
  \<^verbatim>\<open>_add_new_tab\<close>; \<open>fitz_open\<close> stands for the file system and the engine's \<^verbatim>\<open>fitz.open\<close>.
  (The deferred \<^verbatim>\<open>fit_to_page\<close> of the single-shot timer is a later call of its own.)
\<close>

definition add_new_tab :: "(string \<Rightarrow> document option) \<Rightarrow> main_window \<Rightarrow> string \<Rightarrow> main_window" where
  "add_new_tab fitz_open w p =
     (case find_tab (tabs w) p 0 of
        Some i \<Rightarrow> w\<lparr>current_index := i\<rparr>
      | None \<Rightarrow>
          (let v = new_viewer p (fitz_open p)
           in if \<not> doc_truthy v then w
              else w\<lparr>tabs := tabs w @ [refresh_thumbnails v],
                      current_index := int (length (tabs w))\<rparr>))"

text \<open>
  \<^verbatim>\<open>_close_tab\<close>: the viewer is closed and its tab removed. Which tab is current afterwards
  is the toolkit's choice, given here as \<open>qt_current\<close>.
\<close>

definition close_tab :: "main_window \<Rightarrow> int \<Rightarrow> int \<Rightarrow> main_window" where
  "close_tab w index qt_current =
     (if 0 \<le> index \<and> index < int (length (tabs w))
      then w\<lparr>tabs := take (nat index) (tabs w) @ drop (Suc (nat index)) (tabs w),
              current_index := qt_current\<rparr>
      else w)"

datatype tab_request = Add_tab string | Close_tab int int

fun tab_step :: "(string \<Rightarrow> document option) \<Rightarrow> main_window \<Rightarrow> tab_request \<Rightarrow> main_window" where
  "tab_step fitz_open w (Add_tab p) = add_new_tab fitz_open w p"
| "tab_step fitz_open w (Close_tab index qt_current) = close_tab w index qt_current"

definition tab_run :: "(string \<Rightarrow> document option) \<Rightarrow> tab_request list \<Rightarrow> main_window" where
  "tab_run fitz_open reqs = foldl (tab_step fitz_open) no_tabs reqs"

text \<open>
  Modelled from the spec: the path normalisation by which the spec's tab registry keys its
  tabs. The source has no such function (\<^verbatim>\<open>_add_new_tab\<close> compares the strings as given);
  this is the least any normalisation does, dropping a leading \<^verbatim>\<open>./\<close>.
\<close>

fun normalize_path :: "string \<Rightarrow> string" where
  "normalize_path (a # b # p) =
     (if a = CHR ''.'' \<and> b = CHR ''/'' then normalize_path p else a # b # p)"
| "normalize_path p = p"

section \<open>Sequences of user actions\<close>

datatype action =
    Display_page int
  | Set_zoom_factor real
  | Wheel_zoom real
  | Zoom_in
  | Zoom_out
  | Fit_to_page
  | Rotate int
  | Resize int int
  | Search_text string
  | Go_to_result int
  | Text_selected qrectf
  | Page_ready real

fun perform :: "viewer \<Rightarrow> action \<Rightarrow> error + viewer" where
  "perform s (Display_page p) = display_page s p"
| "perform s (Set_zoom_factor x) = set_zoom_factor s x"
| "perform s (Wheel_zoom x) = handle_wheel_zoom s x"
| "perform s Zoom_in = zoom_in s"
| "perform s Zoom_out = zoom_out s"
| "perform s Fit_to_page = fit_to_page s"
| "perform s (Rotate a) = rotate_view s a"
| "perform s (Resize w h) = resizeEvent s w h"
| "perform s (Search_text t) = search_text s t"
| "perform s (Go_to_result i) = go_to_result s i"
| "perform s (Text_selected q) = on_text_selected s q"
| "perform s (Page_ready sc) = on_page_ready s sc"

fun perform_all :: "viewer \<Rightarrow> action list \<Rightarrow> error + viewer" where
  "perform_all s [] = Inr s"
| "perform_all s (a # as) =
     (case perform s a of Inl e \<Rightarrow> Inl e | Inr s' \<Rightarrow> perform_all s' as)"

text \<open>
  What the viewer's own guards maintain: the displayed page exists, and the search cursor
  is negative or points into the match list.
\<close>

definition viewer_ok :: "viewer \<Rightarrow> bool" where
  "viewer_ok s =
     ((if doc_truthy s then 0 \<le> current_page_index s \<and> current_page_index s < page_count s else True)
      \<and> (current_search_index s < 0
           \<or> current_search_index s < int (length (search_results s))))"

text \<open>The pages behind \<^verbatim>\<open>self.doc\<close> (none when no document is open).\<close>

definition doc_pages :: "viewer \<Rightarrow> page list" where
  "doc_pages s = (case doc s of None \<Rightarrow> [] | Some d \<Rightarrow> d)"

text \<open>The two ranges the spec gives for the view state.\<close>

definition zoom_in_range :: "viewer \<Rightarrow> bool" where
  "zoom_in_range s = (0.1 \<le> current_zoom_factor s \<and> current_zoom_factor s \<le> 15)"

definition right_angle :: "int \<Rightarrow> bool" where
  "right_angle r = (r = 0 \<or> r = 90 \<or> r = 180 \<or> r = 270)"

text \<open>Every rotation request of a list of actions is by a quarter turn, left or right.\<close>

fun quarter_turns :: "action list \<Rightarrow> bool" where
  "quarter_turns [] = True"
| "quarter_turns (Rotate ang # acts) = ((ang = 90 \<or> ang = - 90) \<and> quarter_turns acts)"
| "quarter_turns (a # acts) = quarter_turns acts"

section \<open>A three-page example document\<close>

text \<open>
  Three pages of 612 by 792 points; the engine finds the word \<^verbatim>\<open>test\<close> at the given
  rectangles and nothing else, and extracts no text.
\<close>

definition example_page :: "rect list \<Rightarrow> page" where
  "example_page ms =
     \<lparr>page_rect = Rect 0 0 612 792,
      search_for = (\<lambda>q. if q = ''test'' then ms else []),
      get_text = (\<lambda>clip. [])\<rparr>"

definition example_doc :: document where
  "example_doc = [example_page [Rect 72 72 100 84], example_page [], example_page [Rect 72 200 100 212]]"

definition example_viewer :: viewer where
  "example_viewer = (new_viewer ''a.pdf'' (Some example_doc))\<lparr>viewport_width := 612, viewport_height := 792\<rparr>"

text \<open>The viewer after a search that found the two matches, showing the second one.\<close>

definition example_searched :: viewer where
  "example_searched =
     example_viewer\<lparr>current_page_index := 2,
                     search_results := [(0, Rect 72 72 100 84), (2, Rect 72 200 100 212)],
                     current_search_index := 1\<rparr>"

text \<open>The example viewer while both of its worker threads are running.\<close>

definition example_busy :: viewer where
  "example_busy =
     example_viewer\<lparr>page_render_thread_running := True, thumbnail_loader_running := True\<rparr>"

text \<open>
  The example viewer turned by 90 degrees and rendered at scale 2, with one match on the page
  shown.
\<close>

definition example_rotated :: viewer where
  "example_rotated =
     example_viewer\<lparr>rotation := 90, current_render_scale := 2,
                     search_results := [(0, Rect 10 20 30 50)], current_search_index := 0\<rparr>"

text \<open>A file system holding that document under two spellings of its path.\<close>

definition example_open :: "string \<Rightarrow> document option" where
  "example_open p = (if p = ''a.pdf'' \<or> p = ''./a.pdf'' then Some example_doc else None)"

section \<open>Basic facts\<close>

lemma set_zoom_factor_cases:
  "set_zoom_factor s x =
     (if \<bar>clamp_zoom x - current_zoom_factor s\<bar> > 0.01
      then Inr ((s\<lparr>current_zoom_factor := clamp_zoom x\<rparr>)
                 \<lparr>trace := trace s @ [Emit_zoom_changed (clamp_zoom x), Render_timer_start]\<rparr>)
      else Inr s)"
  by (simp add: set_zoom_factor_def request_render_def emit_def clamp_zoom_def Let_def)

lemma request_render_False: "request_render False s = Inr (emit Render_timer_start s)"
  by (simp add: request_render_def)

lemma example_viewer_zoom: "current_zoom_factor example_viewer = 1"
  by (simp add: example_viewer_def new_viewer_def)

section \<open>Zoom requests\<close>

text \<open>
  C9. The dead band of \<^verbatim>\<open>set_zoom_factor\<close>: a request whose clamped value is within 0.01
  of the current zoom factor returns the viewer exactly as it was (same zoom factor, nothing
  added to the trace: no \<^verbatim>\<open>zoom_changed\<close>, no render timer), and so does any number of
  such requests in a row.
\<close>

theorem zoom_dead_band:
  assumes "\<forall>x \<in> set xs. \<bar>clamp_zoom x - current_zoom_factor s\<bar> \<le> 0.01"
  shows "(\<forall>x \<in> set xs. set_zoom_factor s x = Inr s)
         \<and> perform_all s (map Set_zoom_factor xs) = Inr s"
proof
  show "\<forall>x \<in> set xs. set_zoom_factor s x = Inr s"
    using assms by (auto simp add: set_zoom_factor_cases)
  show "perform_all s (map Set_zoom_factor xs) = Inr s"
    using assms by (induction xs) (auto simp add: set_zoom_factor_cases)
qed

theorem zoom_dead_band_witness:
  "\<bar>clamp_zoom 1.005 - current_zoom_factor example_viewer\<bar> \<le> 0.01
   \<and> \<bar>clamp_zoom 0.995 - current_zoom_factor example_viewer\<bar> \<le> 0.01
   \<and> clamp_zoom 1.005 \<noteq> current_zoom_factor example_viewer
   \<and> set_zoom_factor example_viewer 1.005 = Inr example_viewer
   \<and> perform_all example_viewer (map Set_zoom_factor [1.005, 0.995, 1.005]) = Inr example_viewer"
proof -
  have h: "\<forall>x \<in> set [1.005, 0.995, 1.005::real].
             \<bar>clamp_zoom x - current_zoom_factor example_viewer\<bar> \<le> 0.01"
    by (simp add: clamp_zoom_def example_viewer_zoom)
  from zoom_dead_band [OF h] show ?thesis
    by (simp add: clamp_zoom_def example_viewer_zoom)
qed

section \<open>What each method changes, and that it returns\<close>

lemma render_page_fields:
  "render_page s = Inr s' \<Longrightarrow>
     doc s' = doc s \<and> current_page_index s' = current_page_index s \<and> rotation s' = rotation s
     \<and> current_zoom_factor s' = current_zoom_factor s \<and> base_scale s' = base_scale s
     \<and> search_results s' = search_results s \<and> current_search_index s' = current_search_index s
     \<and> current_render_scale s' = current_render_scale s \<and> highlights s' = highlights s
     \<and> (\<exists>evs. trace s' = trace s @ evs \<and> Emit_page_changed \<notin> set evs)"
  by (auto simp add: render_page_def emit_def Let_def split: option.splits if_splits sum.splits)

lemma render_page_total:
  "doc_truthy s \<Longrightarrow> 0 \<le> current_page_index s \<Longrightarrow> current_page_index s < page_count s
     \<Longrightarrow> \<exists>s'. render_page s = Inr s'"
  by (auto simp add: render_page_def emit_def Let_def doc_truthy_def page_count_def load_page_def
           split: option.splits if_splits sum.splits)

lemma recalculate_fields:
  "recalculate_base_scale_and_render s = Inr s' \<Longrightarrow>
     doc s' = doc s \<and> current_page_index s' = current_page_index s \<and> rotation s' = rotation s
     \<and> current_zoom_factor s' = current_zoom_factor s
     \<and> search_results s' = search_results s \<and> current_search_index s' = current_search_index s
     \<and> current_render_scale s' = current_render_scale s \<and> highlights s' = highlights s
     \<and> (\<exists>evs. trace s' = trace s @ evs \<and> Emit_page_changed \<notin> set evs)"
  by (auto simp add: recalculate_base_scale_and_render_def request_render_False emit_def Let_def
           split: option.splits if_splits sum.splits)

lemma recalculate_total:
  "(doc_truthy s \<longrightarrow> 0 \<le> current_page_index s \<and> current_page_index s < page_count s)
     \<Longrightarrow> \<exists>s'. recalculate_base_scale_and_render s = Inr s'"
  by (auto simp add: recalculate_base_scale_and_render_def request_render_False Let_def
                     doc_truthy_def page_count_def load_page_def
           split: option.splits if_splits sum.splits)

lemma update_highlights_total:
  "current_search_index s < 0 \<or> current_search_index s < int (length (search_results s))
     \<Longrightarrow> \<exists>s'. update_highlights s = Inr s'"
  by (auto simp add: update_highlights_def py_getitem_def Let_def split: prod.splits)

lemma update_highlights_fields:
  "update_highlights s = Inr s' \<Longrightarrow> \<exists>hs. s' = s\<lparr>highlights := hs\<rparr>"
  by (auto simp add: update_highlights_def Let_def split: if_splits sum.splits prod.splits)


lemma rotate_view_result:
  assumes "doc_truthy s \<longrightarrow> 0 \<le> current_page_index s \<and> current_page_index s < page_count s"
  shows "\<exists>s'. rotate_view s a = Inr s' \<and> rotation s' = (rotation s + a) mod 360
          \<and> doc s' = doc s \<and> current_page_index s' = current_page_index s
          \<and> current_zoom_factor s' = current_zoom_factor s
          \<and> search_results s' = search_results s \<and> current_search_index s' = current_search_index s"
proof -
  let ?s1 = "s\<lparr>rotation := (rotation s + a) mod 360\<rparr>"
  have "doc_truthy ?s1 \<longrightarrow> 0 \<le> current_page_index ?s1 \<and> current_page_index ?s1 < page_count ?s1"
    using assms by (simp add: doc_truthy_def page_count_def)
  from recalculate_total [OF this] obtain s2 where r: "recalculate_base_scale_and_render ?s1 = Inr s2"
    by blast
  show ?thesis
    using r recalculate_fields [OF r] by (auto simp add: rotate_view_def emit_def)
qed

lemma fit_to_page_result:
  assumes "doc_truthy s \<longrightarrow> 0 \<le> current_page_index s \<and> current_page_index s < page_count s"
  shows "\<exists>s'. fit_to_page s = Inr s' \<and> current_zoom_factor s' = 1
          \<and> rotation s' = rotation s
          \<and> doc s' = doc s \<and> current_page_index s' = current_page_index s
          \<and> search_results s' = search_results s \<and> current_search_index s' = current_search_index s
          \<and> (\<exists>evs. trace s' = trace s @ Emit_zoom_changed 1 # evs \<and> Emit_page_changed \<notin> set evs)"
proof -
  let ?s1 = "emit (Emit_zoom_changed 1.0) (s\<lparr>current_zoom_factor := 1.0\<rparr>)"
  have "doc_truthy ?s1 \<longrightarrow> 0 \<le> current_page_index ?s1 \<and> current_page_index ?s1 < page_count ?s1"
    using assms by (simp add: doc_truthy_def page_count_def emit_def)
  from recalculate_total [OF this] obtain s2 where r: "recalculate_base_scale_and_render ?s1 = Inr s2"
    by blast
  show ?thesis
    using r recalculate_fields [OF r] by (auto simp add: fit_to_page_def emit_def)
qed

lemma resizeEvent_result:
  assumes "doc_truthy s \<longrightarrow> 0 \<le> current_page_index s \<and> current_page_index s < page_count s"
  shows "\<exists>s'. resizeEvent s w h = Inr s' \<and> current_zoom_factor s' = current_zoom_factor s
          \<and> rotation s' = rotation s
          \<and> doc s' = doc s \<and> current_page_index s' = current_page_index s
          \<and> search_results s' = search_results s \<and> current_search_index s' = current_search_index s"
proof -
  let ?s1 = "s\<lparr>viewport_width := w, viewport_height := h\<rparr>"
  have "doc_truthy ?s1 \<longrightarrow> 0 \<le> current_page_index ?s1 \<and> current_page_index ?s1 < page_count ?s1"
    using assms by (simp add: doc_truthy_def page_count_def emit_def)
  from recalculate_total [OF this] obtain s2 where r: "recalculate_base_scale_and_render ?s1 = Inr s2"
    by blast
  show ?thesis
    using r recalculate_fields [OF r] by (auto simp add: resizeEvent_def emit_def)
qed

lemma display_page_result:
  "\<exists>s'. display_page s p = Inr s'
     \<and> doc s' = doc s \<and> rotation s' = rotation s
     \<and> search_results s' = search_results s \<and> current_search_index s' = current_search_index s
     \<and> current_page_index s' = (if doc_truthy s \<and> 0 \<le> p \<and> p < page_count s then p else current_page_index s)
     \<and> current_zoom_factor s' = (if doc_truthy s \<and> 0 \<le> p \<and> p < page_count s \<and> p = current_page_index s
                                 then 1 else current_zoom_factor s)
     \<and> (\<exists>evs. trace s' = trace s @ evs
            \<and> (Emit_page_changed \<in> set evs \<longleftrightarrow> current_page_index s' \<noteq> current_page_index s))"
proof (cases "doc_truthy s \<and> 0 \<le> p \<and> p < page_count s")
  case False
  then show ?thesis by (auto simp add: display_page_def)
next
  case True
  show ?thesis
  proof (cases "current_page_index s = p")
    case same: True
    have "doc_truthy s \<longrightarrow> 0 \<le> current_page_index s \<and> current_page_index s < page_count s"
      using True same by simp
    from fit_to_page_result [OF this] obtain s' where
      f: "fit_to_page s = Inr s'" and rest: "current_zoom_factor s' = 1" "rotation s' = rotation s"
        "doc s' = doc s" "current_page_index s' = current_page_index s"
        "search_results s' = search_results s" "current_search_index s' = current_search_index s"
        "\<exists>evs. trace s' = trace s @ Emit_zoom_changed 1 # evs \<and> Emit_page_changed \<notin> set evs"
      by blast
    from rest(7) obtain evs where "trace s' = trace s @ (Emit_zoom_changed 1 # evs)"
      "Emit_page_changed \<notin> set (Emit_zoom_changed 1 # evs)" by auto
    then have "\<exists>evs. trace s' = trace s @ evs
            \<and> (Emit_page_changed \<in> set evs \<longleftrightarrow> current_page_index s' \<noteq> current_page_index s)"
      using rest(4) by blast
    then show ?thesis
      using True same f rest(1-6) by (simp add: display_page_def)
  next
    case differ: False
    let ?s1 = "emit Render_timer_stop (s\<lparr>current_page_index := p\<rparr>)"
    have "doc_truthy ?s1" "0 \<le> current_page_index ?s1" "current_page_index ?s1 < page_count ?s1"
      using True by (simp_all add: doc_truthy_def page_count_def emit_def)
    from render_page_total [OF this] obtain s2 where r: "render_page ?s1 = Inr s2" by blast
    from render_page_fields [OF r] obtain evs where
      e: "trace s2 = trace ?s1 @ evs" "Emit_page_changed \<notin> set evs" by blast
    have tr: "trace (emit Emit_page_changed s2) = trace s @ (Render_timer_stop # evs @ [Emit_page_changed])"
      using e by (simp add: emit_def)
    have "display_page s p = Inr (emit Emit_page_changed s2)"
      using True differ r by (simp add: display_page_def request_render_def)
    moreover have "\<exists>evs. trace (emit Emit_page_changed s2) = trace s @ evs
            \<and> (Emit_page_changed \<in> set evs \<longleftrightarrow>
                 current_page_index (emit Emit_page_changed s2) \<noteq> current_page_index s)"
      using tr differ render_page_fields [OF r] by (auto simp add: emit_def)
    ultimately show ?thesis
      using True differ render_page_fields [OF r] by (simp add: emit_def)
  qed
qed

lemma on_page_ready_result:
  assumes "current_search_index s < 0 \<or> current_search_index s < int (length (search_results s))"
  shows "\<exists>hs. on_page_ready s sc = Inr (s\<lparr>current_render_scale := sc, highlights := hs\<rparr>)"
proof -
  let ?s1 = "s\<lparr>current_render_scale := sc, highlights := []\<rparr>"
  have "current_search_index ?s1 < 0 \<or> current_search_index ?s1 < int (length (search_results ?s1))"
    using assms by simp
  from update_highlights_total [OF this] obtain s2 where u: "update_highlights ?s1 = Inr s2" by blast
  from update_highlights_fields [OF u] show ?thesis
    using u by (auto simp add: on_page_ready_def)
qed

lemma scene_rect_to_pdf_rect_cases:
  "scene_rect_to_pdf_rect q sc =
     (if sc = 0 then Inl ZeroDivisionError
      else Inr (Rect (qx q / sc) (qy q / sc) (right q / sc) (bottom q / sc)))"
  by (simp add: scene_rect_to_pdf_rect_def py_truediv_def)

lemma on_text_selected_zero_scale:
  "current_render_scale s = 0 \<Longrightarrow> on_text_selected s q = Inr s"
  by (simp add: on_text_selected_def scene_rect_to_pdf_rect_cases split: option.splits)

lemma on_text_selected_nonzero:
  assumes "doc s = Some d" "d \<noteq> []" "current_render_scale s \<noteq> 0"
    and "load_page d (current_page_index s) = Inr pg"
  shows "on_text_selected s q =
     (let clip = undo_rotation (Rect (qx q / current_render_scale s) (qy q / current_render_scale s)
                                     (right q / current_render_scale s) (bottom q / current_render_scale s))
                               (rotation s)
      in Inr (s\<lparr>trace := trace s @ Page_get_text (current_page_index s) clip #
                  (if get_text pg clip \<noteq> []
                   then [Clipboard_setText (py_strip (get_text pg clip)), Emit_copied_to_clipboard]
                   else [])\<rparr>))"
  using assms
  by (simp add: on_text_selected_def scene_rect_to_pdf_rect_cases emit_def Let_def)

lemma on_text_selected_result:
  assumes "doc_truthy s \<longrightarrow> 0 \<le> current_page_index s \<and> current_page_index s < page_count s"
  shows "\<exists>evs. on_text_selected s q = Inr (s\<lparr>trace := trace s @ evs\<rparr>)"
proof (cases "doc_truthy s \<and> current_render_scale s \<noteq> 0")
  case False
  have "on_text_selected s q = Inr s"
    using False
    by (auto simp add: on_text_selected_def doc_truthy_def scene_rect_to_pdf_rect_cases
             split: option.splits)
  then have "on_text_selected s q = Inr (s\<lparr>trace := trace s @ []\<rparr>)" by simp
  then show ?thesis by blast
next
  case True
  then obtain d where d: "doc s = Some d" "d \<noteq> []"
    by (auto simp add: doc_truthy_def split: option.splits)
  with True assms have "load_page d (current_page_index s) = Inr (d ! nat (current_page_index s))"
    by (simp add: load_page_def page_count_def)
  from on_text_selected_nonzero [OF d _ this, of q] True show ?thesis
    by (auto simp add: Let_def)
qed

lemma go_to_result_result:
  "\<exists>s'. go_to_result s i = Inr s'
     \<and> doc s' = doc s \<and> rotation s' = rotation s \<and> search_results s' = search_results s
     \<and> current_search_index s' = (if 0 \<le> i \<and> i < int (length (search_results s)) then i
                                    else current_search_index s)
     \<and> (current_zoom_factor s' = current_zoom_factor s \<or> current_zoom_factor s' = 1)
     \<and> (current_page_index s' = current_page_index s
          \<or> doc_truthy s \<and> 0 \<le> current_page_index s' \<and> current_page_index s' < page_count s)"
proof (cases "0 \<le> i \<and> i < int (length (search_results s))")
  case False
  then show ?thesis by (auto simp add: go_to_result_def)
next
  case True
  let ?s1 = "s\<lparr>current_search_index := i\<rparr>"
  obtain page_num r where g: "py_getitem (search_results ?s1) i = Inr (page_num, r)"
    using True by (cases "search_results s ! nat i") (simp add: py_getitem_def)
  show ?thesis
  proof (cases "page_num \<noteq> current_page_index s")
    case differ: True
    from display_page_result [of ?s1 page_num] obtain s2 where
      d: "display_page ?s1 page_num = Inr s2" and
      rest: "doc s2 = doc ?s1" "rotation s2 = rotation ?s1" "search_results s2 = search_results ?s1"
        "current_search_index s2 = current_search_index ?s1"
        "current_page_index s2 = (if doc_truthy ?s1 \<and> 0 \<le> page_num \<and> page_num < page_count ?s1
                                   then page_num else current_page_index ?s1)"
        "current_zoom_factor s2 = (if doc_truthy ?s1 \<and> 0 \<le> page_num \<and> page_num < page_count ?s1
                                      \<and> page_num = current_page_index ?s1
                                   then 1 else current_zoom_factor ?s1)"
      by blast
    have dt: "doc_truthy ?s1 = doc_truthy s" "page_count ?s1 = page_count s"
      by (simp_all add: doc_truthy_def page_count_def)
    show ?thesis
      using True g differ d rest dt
      by (auto simp add: go_to_result_def emit_def Let_def)
  next
    case same: False
    have "current_search_index ?s1 < 0 \<or> current_search_index ?s1 < int (length (search_results ?s1))"
      using True by simp
    from update_highlights_total [OF this] obtain s2 where u: "update_highlights ?s1 = Inr s2" by blast
    from update_highlights_fields [OF u] obtain hs where "s2 = ?s1\<lparr>highlights := hs\<rparr>" by blast
    then show ?thesis
      using True g same u by (auto simp add: go_to_result_def emit_def Let_def)
  qed
qed

section \<open>The search loop\<close>

lemma append_rects_eq: "append_rects acc i rs = acc @ map (Pair i) rs"
  by (induction rs arbitrary: acc) simp_all

lemma search_pages_eq:
  "0 \<le> i \<Longrightarrow> n \<le> int (length d) \<Longrightarrow>
   search_pages d qry i n acc =
     Inr (acc @ concat (map (\<lambda>k. map (Pair (int k)) (search_for (d ! k) qry)) [nat i..<nat n]))"
proof (induction d qry i n acc rule: search_pages.induct)
  case (1 d qry i n acc)
  show ?case
  proof (cases "i < n")
    case False
    then show ?thesis by (simp add: search_pages.simps [of d qry i n acc])
  next
    case True
    with "1.prems" have lp: "load_page d i = Inr (d ! nat i)"
      by (simp add: load_page_def)
    have lt: "nat i < nat n" using True "1.prems" by simp
    have suc: "Suc (nat i) = nat (i + 1)" using "1.prems" by simp
    have step: "[nat i..<nat n] = nat i # [nat (i + 1)..<nat n]"
      using upt_conv_Cons [OF lt] by (simp only: suc)
    have "search_pages d qry i n acc
            = search_pages d qry (i + 1) n (append_rects acc i (search_for (d ! nat i) qry))"
      using True lp by (simp add: search_pages.simps [of d qry i n acc])
    also have "\<dots> = Inr (append_rects acc i (search_for (d ! nat i) qry)
                 @ concat (map (\<lambda>k. map (Pair (int k)) (search_for (d ! k) qry)) [nat (i + 1)..<nat n]))"
      using "1.IH" [OF True lp] "1.prems" by simp
    finally show ?thesis
      using "1.prems" by (simp add: step append_rects_eq)
  qed
qed

text \<open>The match list a search builds: page by page, each page's matches in the engine's order.\<close>

lemma found_pages_bound:
  "(p, r) \<in> set (concat (map (\<lambda>k. map (Pair (int k)) (f k)) [0..<n])) \<Longrightarrow> 0 \<le> p \<and> p < int n"
  by auto

lemma search_text_empty:
  "search_text s [] =
     Inr ((s\<lparr>search_results := [], current_search_index := - 1, highlights := []\<rparr>)
            \<lparr>trace := trace s @ [Emit_search_results_updated 0 0]\<rparr>)"
  by (simp add: search_text_def update_highlights_def emit_def Let_def)

lemma search_text_result:
  assumes "qry \<noteq> []"
  shows "\<exists>s'. search_text s qry = Inr s'
     \<and> search_results s' =
         concat (map (\<lambda>k. map (Pair (int k)) (search_for ((case doc s of None \<Rightarrow> [] | Some d \<Rightarrow> d) ! k) qry))
                     [0..<nat (page_count s)])
     \<and> current_search_index s' = (if search_results s' = [] then - 1 else 0)
     \<and> doc s' = doc s \<and> rotation s' = rotation s
     \<and> (current_zoom_factor s' = current_zoom_factor s \<or> current_zoom_factor s' = 1)
     \<and> (current_page_index s' = current_page_index s
          \<or> doc_truthy s \<and> 0 \<le> current_page_index s' \<and> current_page_index s' < page_count s)"
proof -
  let ?d = "case doc s of None \<Rightarrow> [] | Some d \<Rightarrow> d"
  let ?s1 = "s\<lparr>search_results := [], current_search_index := - 1\<rparr>"
  let ?found = "concat (map (\<lambda>k. map (Pair (int k)) (search_for (?d ! k) qry)) [0..<nat (page_count s)])"
  have pc: "page_count ?s1 = page_count s" "doc ?s1 = doc s" "doc_truthy ?s1 = doc_truthy s"
    by (simp_all add: page_count_def doc_truthy_def)
  have le: "page_count s \<le> int (length ?d)"
    by (simp add: page_count_def split: option.splits)
  have sp: "search_pages ?d qry 0 (page_count s) [] = Inr ?found"
    using search_pages_eq [of 0 "page_count s" ?d qry "[]"] le by simp
  let ?s2 = "?s1\<lparr>search_results := ?found\<rparr>"
  show ?thesis
  proof (cases "?found = []")
    case True
    then show ?thesis
      using assms sp pc by (simp add: search_text_def Let_def emit_def)
  next
    case False
    let ?s3 = "?s2\<lparr>current_search_index := 0\<rparr>"
    from go_to_result_result [of ?s3 0] obtain s4 where
      g: "go_to_result ?s3 0 = Inr s4" and
      rest: "doc s4 = doc ?s3" "rotation s4 = rotation ?s3" "search_results s4 = search_results ?s3"
        "current_search_index s4 = (if 0 \<le> (0::int) \<and> 0 < int (length (search_results ?s3)) then 0
                                    else current_search_index ?s3)"
        "current_zoom_factor s4 = current_zoom_factor ?s3 \<or> current_zoom_factor s4 = 1"
        "current_page_index s4 = current_page_index ?s3
          \<or> doc_truthy ?s3 \<and> 0 \<le> current_page_index s4 \<and> current_page_index s4 < page_count ?s3"
      by blast
    have dt: "doc_truthy ?s3 = doc_truthy s" "page_count ?s3 = page_count s"
      by (simp_all add: page_count_def doc_truthy_def)
    have "search_text s qry = Inr (emit (Emit_search_results_updated
                                     (if search_results s4 \<noteq> [] then current_search_index s4 + 1 else 0)
                                     (int (length (search_results s4)))) s4)"
      using assms sp pc False g by (simp add: search_text_def Let_def)
    then show ?thesis
      using rest False dt by (auto simp add: emit_def)
  qed
qed

section \<open>The invariant through every action\<close>

lemma viewer_ok_iff:
  "viewer_ok s \<longleftrightarrow>
     (doc_truthy s \<longrightarrow> 0 \<le> current_page_index s \<and> current_page_index s < page_count s)
     \<and> (current_search_index s < 0 \<or> current_search_index s < int (length (search_results s)))"
  by (simp add: viewer_ok_def)

lemma viewer_ok_cong:
  assumes "viewer_ok s" "doc s' = doc s" "search_results s' = search_results s"
    "current_search_index s' = current_search_index s" "current_page_index s' = current_page_index s"
  shows "viewer_ok s'"
  using assms by (simp add: viewer_ok_iff doc_truthy_def page_count_def)

lemma viewer_ok_page:
  "viewer_ok s \<Longrightarrow> doc_truthy s \<longrightarrow> 0 \<le> current_page_index s \<and> current_page_index s < page_count s"
  by (simp add: viewer_ok_iff)

lemma viewer_ok_cursor:
  "viewer_ok s \<Longrightarrow> current_search_index s < 0 \<or> current_search_index s < int (length (search_results s))"
  by (simp add: viewer_ok_iff)

lemma clamp_zoom_range: "0.1 \<le> clamp_zoom x \<and> clamp_zoom x \<le> 15"
  by (simp add: clamp_zoom_def)

lemma set_zoom_factor_result:
  "\<exists>s'. set_zoom_factor s x = Inr s'
     \<and> current_zoom_factor s' = (if \<bar>clamp_zoom x - current_zoom_factor s\<bar> > 0.01 then clamp_zoom x
                                  else current_zoom_factor s)
     \<and> doc s' = doc s \<and> rotation s' = rotation s \<and> current_page_index s' = current_page_index s
     \<and> search_results s' = search_results s \<and> current_search_index s' = current_search_index s"
  by (simp add: set_zoom_factor_cases)

lemma perform_result:
  assumes ok: "viewer_ok s"
  shows "\<exists>s'. perform s a = Inr s' \<and> viewer_ok s' \<and> doc s' = doc s
           \<and> (zoom_in_range s \<longrightarrow> zoom_in_range s')
           \<and> (rotation s' = rotation s \<or> (\<exists>ang. a = Rotate ang \<and> rotation s' = (rotation s + ang) mod 360))"
proof (cases a)
  case (Display_page p)
  from display_page_result [of s p] obtain s' where r: "display_page s p = Inr s'" "doc s' = doc s"
    "rotation s' = rotation s" "search_results s' = search_results s"
    "current_search_index s' = current_search_index s"
    "current_page_index s' = (if doc_truthy s \<and> 0 \<le> p \<and> p < page_count s then p else current_page_index s)"
    "current_zoom_factor s' = (if doc_truthy s \<and> 0 \<le> p \<and> p < page_count s \<and> p = current_page_index s
                                 then 1 else current_zoom_factor s)"
    by blast
  have "viewer_ok s'"
    using ok r by (auto simp add: viewer_ok_iff doc_truthy_def page_count_def)
  then show ?thesis using Display_page r by (auto simp add: zoom_in_range_def)
next
  case (Set_zoom_factor x)
  from set_zoom_factor_result [of s x] obtain s' where r: "set_zoom_factor s x = Inr s'"
    "current_zoom_factor s' = (if \<bar>clamp_zoom x - current_zoom_factor s\<bar> > 0.01 then clamp_zoom x
                                  else current_zoom_factor s)"
    "doc s' = doc s" "rotation s' = rotation s" "current_page_index s' = current_page_index s"
    "search_results s' = search_results s" "current_search_index s' = current_search_index s"
    by blast
  have "viewer_ok s'" using viewer_ok_cong [OF ok r(3,6,7,5)] .
  then show ?thesis using Set_zoom_factor r clamp_zoom_range [of x] by (auto simp add: zoom_in_range_def)
next
  case (Wheel_zoom f)
  let ?x = "current_zoom_factor s * f"
  from set_zoom_factor_result [of s ?x] obtain s' where r: "set_zoom_factor s ?x = Inr s'"
    "current_zoom_factor s' = (if \<bar>clamp_zoom ?x - current_zoom_factor s\<bar> > 0.01 then clamp_zoom ?x
                                  else current_zoom_factor s)"
    "doc s' = doc s" "rotation s' = rotation s" "current_page_index s' = current_page_index s"
    "search_results s' = search_results s" "current_search_index s' = current_search_index s"
    by blast
  have "viewer_ok s'" using viewer_ok_cong [OF ok r(3,6,7,5)] .
  then show ?thesis using Wheel_zoom r clamp_zoom_range [of ?x]
    by (auto simp add: zoom_in_range_def handle_wheel_zoom_def)
next
  case Zoom_in
  let ?x = "current_zoom_factor s * 1.25"
  from set_zoom_factor_result [of s ?x] obtain s' where r: "set_zoom_factor s ?x = Inr s'"
    "current_zoom_factor s' = (if \<bar>clamp_zoom ?x - current_zoom_factor s\<bar> > 0.01 then clamp_zoom ?x
                                  else current_zoom_factor s)"
    "doc s' = doc s" "rotation s' = rotation s" "current_page_index s' = current_page_index s"
    "search_results s' = search_results s" "current_search_index s' = current_search_index s"
    by blast
  have "viewer_ok s'" using viewer_ok_cong [OF ok r(3,6,7,5)] .
  then show ?thesis using Zoom_in r clamp_zoom_range [of ?x]
    by (auto simp add: zoom_in_range_def zoom_in_def)
next
  case Zoom_out
  let ?x = "current_zoom_factor s / 1.25"
  from set_zoom_factor_result [of s ?x] obtain s' where r: "set_zoom_factor s ?x = Inr s'"
    "current_zoom_factor s' = (if \<bar>clamp_zoom ?x - current_zoom_factor s\<bar> > 0.01 then clamp_zoom ?x
                                  else current_zoom_factor s)"
    "doc s' = doc s" "rotation s' = rotation s" "current_page_index s' = current_page_index s"
    "search_results s' = search_results s" "current_search_index s' = current_search_index s"
    by blast
  have "viewer_ok s'" using viewer_ok_cong [OF ok r(3,6,7,5)] .
  then show ?thesis using Zoom_out r clamp_zoom_range [of ?x]
    by (auto simp add: zoom_in_range_def zoom_out_def)
next
  case Fit_to_page
  from fit_to_page_result [OF viewer_ok_page [OF ok]] obtain s' where r: "fit_to_page s = Inr s'"
    "current_zoom_factor s' = 1" "rotation s' = rotation s" "doc s' = doc s"
    "current_page_index s' = current_page_index s" "search_results s' = search_results s"
    "current_search_index s' = current_search_index s"
    by blast
  have "viewer_ok s'" using viewer_ok_cong [OF ok r(4,6,7,5)] .
  then show ?thesis using Fit_to_page r by (auto simp add: zoom_in_range_def)
next
  case (Rotate ang)
  from rotate_view_result [OF viewer_ok_page [OF ok], of ang] obtain s' where r: "rotate_view s ang = Inr s'"
    "rotation s' = (rotation s + ang) mod 360" "doc s' = doc s"
    "current_page_index s' = current_page_index s" "current_zoom_factor s' = current_zoom_factor s"
    "search_results s' = search_results s" "current_search_index s' = current_search_index s"
    by blast
  have "viewer_ok s'" using viewer_ok_cong [OF ok r(3,6,7,4)] .
  then show ?thesis using Rotate r by (auto simp add: zoom_in_range_def)
next
  case (Resize w h)
  from resizeEvent_result [OF viewer_ok_page [OF ok], of w h] obtain s' where r: "resizeEvent s w h = Inr s'"
    "current_zoom_factor s' = current_zoom_factor s" "rotation s' = rotation s" "doc s' = doc s"
    "current_page_index s' = current_page_index s"
    "search_results s' = search_results s" "current_search_index s' = current_search_index s"
    by blast
  have "viewer_ok s'" using viewer_ok_cong [OF ok r(4,6,7,5)] .
  then show ?thesis using Resize r by (auto simp add: zoom_in_range_def)
next
  case (Search_text q)
  show ?thesis
  proof (cases "q = []")
    case True
    then show ?thesis using Search_text ok
      by (simp add: search_text_empty viewer_ok_iff doc_truthy_def page_count_def zoom_in_range_def)
  next
    case False
    from search_text_result [OF False, of s] obtain s' where r: "search_text s q = Inr s'"
      "current_search_index s' = (if search_results s' = [] then - 1 else 0)"
      "doc s' = doc s" "rotation s' = rotation s"
      "current_zoom_factor s' = current_zoom_factor s \<or> current_zoom_factor s' = 1"
      "current_page_index s' = current_page_index s
          \<or> doc_truthy s \<and> 0 \<le> current_page_index s' \<and> current_page_index s' < page_count s"
      by blast
    have "viewer_ok s'"
      using ok r by (auto simp add: viewer_ok_iff doc_truthy_def page_count_def)
    then show ?thesis using Search_text r by (auto simp add: zoom_in_range_def)
  qed
next
  case (Go_to_result i)
  from go_to_result_result [of s i] obtain s' where r: "go_to_result s i = Inr s'"
    "doc s' = doc s" "rotation s' = rotation s" "search_results s' = search_results s"
    "current_search_index s' = (if 0 \<le> i \<and> i < int (length (search_results s)) then i
                                    else current_search_index s)"
    "current_zoom_factor s' = current_zoom_factor s \<or> current_zoom_factor s' = 1"
    "current_page_index s' = current_page_index s
          \<or> doc_truthy s \<and> 0 \<le> current_page_index s' \<and> current_page_index s' < page_count s"
    by blast
  have "viewer_ok s'"
    using ok r by (auto simp add: viewer_ok_iff doc_truthy_def page_count_def)
  then show ?thesis using Go_to_result r by (auto simp add: zoom_in_range_def)
next
  case (Text_selected q)
  from on_text_selected_result [OF viewer_ok_page [OF ok], of q] obtain evs where
    r: "on_text_selected s q = Inr (s\<lparr>trace := trace s @ evs\<rparr>)" by blast
  have "viewer_ok (s\<lparr>trace := trace s @ evs\<rparr>)" using viewer_ok_cong [OF ok] by simp
  then show ?thesis using Text_selected r by (auto simp add: zoom_in_range_def)
next
  case (Page_ready sc)
  from on_page_ready_result [OF viewer_ok_cursor [OF ok], of sc] obtain hs where
    r: "on_page_ready s sc = Inr (s\<lparr>current_render_scale := sc, highlights := hs\<rparr>)" by blast
  have "viewer_ok (s\<lparr>current_render_scale := sc, highlights := hs\<rparr>)" using viewer_ok_cong [OF ok] by simp
  then show ?thesis using Page_ready r by (auto simp add: zoom_in_range_def)
qed

lemma right_angle_step:
  "right_angle r \<Longrightarrow> ang = 90 \<or> ang = - 90 \<Longrightarrow> right_angle ((r + ang) mod 360)"
  by (auto simp add: right_angle_def)

lemma right_angle_back: "right_angle r \<Longrightarrow> right_angle ((r - 90) mod 360)"
  by (auto simp add: right_angle_def)

lemma new_viewer_ok: "viewer_ok (new_viewer p d)"
  by (auto simp add: viewer_ok_def new_viewer_def doc_truthy_def page_count_def split: option.splits)

lemma perform_all_result:
  assumes "viewer_ok s"
  shows "\<exists>s'. perform_all s acts = Inr s' \<and> viewer_ok s' \<and> doc s' = doc s
           \<and> (zoom_in_range s \<longrightarrow> zoom_in_range s')
           \<and> (right_angle (rotation s) \<and> quarter_turns acts \<longrightarrow> right_angle (rotation s'))"
  using assms
proof (induction acts arbitrary: s)
  case Nil
  then show ?case by simp
next
  case (Cons a acts)
  from perform_result [OF Cons.prems, of a] obtain s1 where
    p: "perform s a = Inr s1" "viewer_ok s1" "doc s1 = doc s" "zoom_in_range s \<longrightarrow> zoom_in_range s1"
      "rotation s1 = rotation s \<or> (\<exists>ang. a = Rotate ang \<and> rotation s1 = (rotation s + ang) mod 360)"
    by blast
  from Cons.IH [OF p(2)] obtain s' where
    q: "perform_all s1 acts = Inr s'" "viewer_ok s'" "doc s' = doc s1" "zoom_in_range s1 \<longrightarrow> zoom_in_range s'"
      "right_angle (rotation s1) \<and> quarter_turns acts \<longrightarrow> right_angle (rotation s')"
    by blast
  have ra: "right_angle (rotation s) \<and> quarter_turns (a # acts) \<longrightarrow> right_angle (rotation s1) \<and> quarter_turns acts"
    using p(5) by (cases a) (auto simp add: right_angle_step right_angle_back)
  show ?case
    using p q ra by auto
qed

lemma rotate_four:
  assumes ok: "viewer_ok s" and r: "right_angle (rotation s)"
  shows "\<exists>s'. perform_all s [Rotate 90, Rotate 90, Rotate 90, Rotate 90] = Inr s' \<and> rotation s' = rotation s"
proof -
  have step: "\<And>t. viewer_ok t \<Longrightarrow> \<exists>t'. rotate_view t 90 = Inr t' \<and> viewer_ok t'
                 \<and> rotation t' = (rotation t + 90) mod 360"
  proof -
    fix t assume t: "viewer_ok t"
    from rotate_view_result [OF viewer_ok_page [OF t], of 90] obtain t' where
      x: "rotate_view t 90 = Inr t'" "rotation t' = (rotation t + 90) mod 360" "doc t' = doc t"
        "current_page_index t' = current_page_index t"
        "search_results t' = search_results t" "current_search_index t' = current_search_index t"
      by blast
    have "viewer_ok t'" using viewer_ok_cong [OF t x(3,5,6,4)] .
    with x show "\<exists>t'. rotate_view t 90 = Inr t' \<and> viewer_ok t' \<and> rotation t' = (rotation t + 90) mod 360"
      by blast
  qed
  from step [OF ok] obtain s1 where a: "rotate_view s 90 = Inr s1" "viewer_ok s1"
    "rotation s1 = (rotation s + 90) mod 360" by blast
  from step [OF a(2)] obtain s2 where b: "rotate_view s1 90 = Inr s2" "viewer_ok s2"
    "rotation s2 = (rotation s1 + 90) mod 360" by blast
  from step [OF b(2)] obtain s3 where c: "rotate_view s2 90 = Inr s3" "viewer_ok s3"
    "rotation s3 = (rotation s2 + 90) mod 360" by blast
  from step [OF c(2)] obtain s4 where d: "rotate_view s3 90 = Inr s4" "viewer_ok s4"
    "rotation s4 = (rotation s3 + 90) mod 360" by blast
  have "rotation s4 = ((((rotation s + 90) mod 360 + 90) mod 360 + 90) mod 360 + 90) mod 360"
    by (simp only: a(3) b(3) c(3) d(3))
  also have "\<dots> = (rotation s + 360) mod 360"
    by (simp add: mod_simps)
  also have "\<dots> = rotation s"
    using r by (auto simp add: right_angle_def)
  finally have "rotation s4 = rotation s" .
  moreover have "perform_all s [Rotate 90, Rotate 90, Rotate 90, Rotate 90] = Inr s4"
    by (simp add: a(1) b(1) c(1) d(1))
  ultimately show ?thesis by blast
qed

lemma example_viewer_ok: "viewer_ok example_viewer"
  using new_viewer_ok [of "''a.pdf''" "Some example_doc"]
  by (rule viewer_ok_cong) (simp_all add: example_viewer_def)

lemma example_viewer_fields:
  "rotation example_viewer = 0" "current_page_index example_viewer = 0"
  "doc example_viewer = Some example_doc" "trace example_viewer = []"
  "search_results example_viewer = []" "current_search_index example_viewer = - 1"
  "current_render_scale example_viewer = 1" "base_scale example_viewer = 1"
  by (simp_all add: example_viewer_def new_viewer_def)

section \<open>Zoom is clamped, outside the dead band\<close>

text \<open>
  C2, as amended. A zoom request by the multiplier \<open>f\<close> at the zoom factor \<open>z\<close> (the wheel;
  \<^verbatim>\<open>zoom_in\<close> is the multiplier 1.25, \<^verbatim>\<open>zoom_out\<close> the multiplier 1/1.25, and both are
  \<^verbatim>\<open>set_zoom_factor\<close> at \<open>z * f\<close>) leaves the zoom factor at \<open>clamp(z * f, 0.1, 15)\<close> when
  that differs from \<open>z\<close> by more than 0.01, and at \<open>z\<close> otherwise. A zoom factor within
  \<open>[0.1, 15]\<close> stays there through every sequence of viewer actions.
\<close>

theorem zoom_request_clamped_outside_dead_band:
  "(\<exists>s'. handle_wheel_zoom s f = Inr s'
         \<and> current_zoom_factor s' =
             (if \<bar>clamp_zoom (current_zoom_factor s * f) - current_zoom_factor s\<bar> > 0.01
              then clamp_zoom (current_zoom_factor s * f) else current_zoom_factor s))
   \<and> set_zoom_factor s (current_zoom_factor s * f) = handle_wheel_zoom s f
   \<and> zoom_in s = handle_wheel_zoom s 1.25
   \<and> zoom_out s = handle_wheel_zoom s (1 / 1.25)
   \<and> (viewer_ok s \<and> zoom_in_range s \<longrightarrow>
        (\<exists>s'. perform_all s acts = Inr s' \<and> zoom_in_range s'))"
proof -
  have "viewer_ok s \<and> zoom_in_range s \<longrightarrow> (\<exists>s'. perform_all s acts = Inr s' \<and> zoom_in_range s')"
  proof
    assume h: "viewer_ok s \<and> zoom_in_range s"
    then have "viewer_ok s" by simp
    from perform_all_result [OF this, of acts] h
    show "\<exists>s'. perform_all s acts = Inr s' \<and> zoom_in_range s'" by blast
  qed
  moreover have "\<exists>s'. handle_wheel_zoom s f = Inr s'
         \<and> current_zoom_factor s' =
             (if \<bar>clamp_zoom (current_zoom_factor s * f) - current_zoom_factor s\<bar> > 0.01
              then clamp_zoom (current_zoom_factor s * f) else current_zoom_factor s)"
    using set_zoom_factor_result [of s "current_zoom_factor s * f"]
    by (auto simp add: handle_wheel_zoom_def)
  ultimately show ?thesis
    by (simp add: handle_wheel_zoom_def zoom_in_def zoom_out_def)
qed

theorem zoom_request_clamped_witness:
  "viewer_ok example_viewer \<and> zoom_in_range example_viewer
   \<and> (\<exists>s'. perform_all example_viewer [Zoom_in, Zoom_in, Zoom_in] = Inr s' \<and> zoom_in_range s')
   \<and> (\<exists>s'. handle_wheel_zoom example_viewer 1.15 = Inr s' \<and> current_zoom_factor s' = 1.15)"
proof -
  have z: "zoom_in_range example_viewer"
    by (simp add: zoom_in_range_def example_viewer_zoom)
  note t = zoom_request_clamped_outside_dead_band [of example_viewer "1.15" "[Zoom_in, Zoom_in, Zoom_in]"]
  from t have a: "\<exists>s'. handle_wheel_zoom example_viewer 1.15 = Inr s' \<and> current_zoom_factor s' = 1.15"
    by (simp add: example_viewer_zoom clamp_zoom_def)
  from t z example_viewer_ok
  have b: "\<exists>s'. perform_all example_viewer [Zoom_in, Zoom_in, Zoom_in] = Inr s' \<and> zoom_in_range s'"
    by blast
  show ?thesis
    using z example_viewer_ok a b by blast
qed

theorem zoom_clamp_counterexample:
  "zoom_in (example_viewer\<lparr>current_zoom_factor := 14.995\<rparr>)
     = Inr (example_viewer\<lparr>current_zoom_factor := 14.995\<rparr>)
   \<and> clamp_zoom (14.995 * 1.25) = 15
   \<and> current_zoom_factor (example_viewer\<lparr>current_zoom_factor := 14.995\<rparr>) \<noteq> clamp_zoom (14.995 * 1.25)
   \<and> set_zoom_factor example_viewer 14.995
       = Inr (example_viewer\<lparr>current_zoom_factor := 14.995,
                              trace := [Emit_zoom_changed 14.995, Render_timer_start]\<rparr>)"
  by (simp add: zoom_in_def set_zoom_factor_cases clamp_zoom_def example_viewer_zoom example_viewer_fields)

section \<open>Rotation by quarter turns\<close>

text \<open>
  C6. From a rotation in \<open>{0, 90, 180, 270}\<close>, four calls of \<^verbatim>\<open>rotate(90)\<close> all return and
  bring the rotation back to exactly its starting value; one call sets it to
  \<open>(rotation + angle) mod 360\<close>; and any sequence of viewer actions whose rotations are all
  by \<open>90\<close> or \<open>-90\<close> returns with the rotation still in \<open>{0, 90, 180, 270}\<close>.
\<close>

theorem rotation_quarter_turns:
  assumes "viewer_ok s" and "right_angle (rotation s)" and "quarter_turns acts"
  shows "(\<exists>s'. perform_all s [Rotate 90, Rotate 90, Rotate 90, Rotate 90] = Inr s'
               \<and> rotation s' = rotation s)
         \<and> (\<exists>s'. rotate_view s ang = Inr s' \<and> rotation s' = (rotation s + ang) mod 360)
         \<and> (\<exists>s'. perform_all s acts = Inr s' \<and> rotation s' \<in> {0, 90, 180, 270})"
proof -
  from perform_all_result [OF assms(1), of acts] assms(2,3)
  have "\<exists>s'. perform_all s acts = Inr s' \<and> right_angle (rotation s')" by blast
  then have "\<exists>s'. perform_all s acts = Inr s' \<and> rotation s' \<in> {0, 90, 180, 270}"
    by (auto simp add: right_angle_def)
  moreover have "\<exists>s'. rotate_view s ang = Inr s' \<and> rotation s' = (rotation s + ang) mod 360"
    using rotate_view_result [OF viewer_ok_page [OF assms(1)], of ang] by blast
  ultimately show ?thesis
    using rotate_four [OF assms(1,2)] by blast
qed

theorem rotation_quarter_turns_witness:
  "viewer_ok example_viewer \<and> right_angle (rotation example_viewer)
   \<and> quarter_turns [Rotate 90, Zoom_in, Rotate (- 90), Rotate (- 90)]
   \<and> (\<exists>s'. perform_all example_viewer [Rotate 90, Rotate 90, Rotate 90, Rotate 90] = Inr s'
            \<and> rotation s' = 0)
   \<and> (\<exists>s'. rotate_view example_viewer (- 90) = Inr s' \<and> rotation s' = 270)
   \<and> (\<exists>s'. perform_all example_viewer [Rotate 90, Zoom_in, Rotate (- 90), Rotate (- 90)] = Inr s'
            \<and> rotation s' \<in> {0, 90, 180, 270})"
proof -
  have r: "right_angle (rotation example_viewer)"
    by (simp add: right_angle_def example_viewer_fields)
  have q: "quarter_turns [Rotate 90, Zoom_in, Rotate (- 90), Rotate (- 90)]" by simp
  note t = rotation_quarter_turns [OF example_viewer_ok r q, of "- 90"]
  from t have a: "\<exists>s'. perform_all example_viewer [Rotate 90, Rotate 90, Rotate 90, Rotate 90] = Inr s'
            \<and> rotation s' = 0"
    by (simp only: example_viewer_fields)
  from t have "\<exists>s'. rotate_view example_viewer (- 90) = Inr s' \<and> rotation s' = (rotation example_viewer + - 90) mod 360"
    by blast
  then have b: "\<exists>s'. rotate_view example_viewer (- 90) = Inr s' \<and> rotation s' = 270"
    by (simp add: example_viewer_fields)
  from t have c: "\<exists>s'. perform_all example_viewer [Rotate 90, Zoom_in, Rotate (- 90), Rotate (- 90)] = Inr s'
            \<and> rotation s' \<in> {0, 90, 180, 270}"
    by blast
  show ?thesis
    using r q example_viewer_ok a b c by blast
qed

lemma found_sorted:
  "sorted (map fst (concat (map (\<lambda>k. map (Pair (int k)) (f k)) [0..<n])))"
proof (induction n)
  case 0
  show ?case by simp
next
  case (Suc n)
  have "\<forall>x \<in> set (concat (map (\<lambda>k. map (Pair (int k)) (f k)) [0..<n])). fst x < int n"
    by auto
  moreover have "map fst (map (Pair (int n)) (f n)) = replicate (length (f n)) (int n)"
    by (simp add: map_replicate_const comp_def)
  ultimately show ?case
    using Suc by (auto simp add: sorted_append comp_def map_replicate_const)
qed

lemma found_on_page:
  "k < n \<Longrightarrow>
   map snd (filter (\<lambda>m. fst m = int k) (concat (map (\<lambda>j. map (Pair (int j)) (f j)) [0..<n]))) = f k"
proof (induction n)
  case 0
  then show ?case by simp
next
  case (Suc n)
  have none: "filter (\<lambda>m. fst m = int n) (concat (map (\<lambda>j. map (Pair (int j)) (f j)) [0..<n])) = []"
    by (auto simp add: filter_empty_conv)
  have all: "filter (\<lambda>m. fst m = int n) (map (Pair (int n)) (f n)) = map (Pair (int n)) (f n)"
    by (induction "f n") (auto simp add: filter_id_conv)
  have other: "k < n \<Longrightarrow> filter (\<lambda>m. fst m = int k) (map (Pair (int n)) (f n)) = []"
    by (auto simp add: filter_empty_conv)
  show ?case
  proof (cases "k = n")
    case True
    then show ?thesis using none all by (simp add: comp_def)
  next
    case False
    with Suc.prems have "k < n" by simp
    then show ?thesis using Suc.IH other by simp
  qed
qed

lemma example_page_count: "page_count example_viewer = 3" "doc_pages example_viewer = example_doc"
  by (simp_all add: page_count_def doc_pages_def example_viewer_fields example_doc_def)

lemma upt_three: "[0..<3] = [0, 1, 2]"
  by (simp add: upt_rec)

section \<open>Search results and navigation\<close>

text \<open>
  C7. A search for a non-empty text returns, and its match list is the concatenation, over
  the page indices \<open>0, ..., page_count - 1\<close> in that order, of \<open>(page index, rect)\<close> for
  the engine's rectangles of that page in the engine's order. So the list is ordered by
  page index, the matches of one page keep the engine's order, and the list does not
  depend on the matches or the cursor held before.
\<close>

theorem search_results_in_page_order:
  assumes "qry \<noteq> []"
  shows "\<exists>s'. search_text s qry = Inr s'
     \<and> search_results s' =
         concat (map (\<lambda>k. map (Pair (int k)) (search_for (doc_pages s ! k) qry)) [0..<nat (page_count s)])
     \<and> sorted (map fst (search_results s'))
     \<and> (\<forall>k < nat (page_count s).
           map snd (filter (\<lambda>m. fst m = int k) (search_results s')) = search_for (doc_pages s ! k) qry)
     \<and> (\<forall>old c. \<exists>s''. search_text (s\<lparr>search_results := old, current_search_index := c\<rparr>) qry = Inr s''
                        \<and> search_results s'' = search_results s')"
proof -
  let ?found = "\<lambda>t. concat (map (\<lambda>k. map (Pair (int k)) (search_for (doc_pages t ! k) qry)) [0..<nat (page_count t)])"
  have every: "\<And>t. \<exists>t'. search_text t qry = Inr t' \<and> search_results t' = ?found t"
    using search_text_result [OF assms] unfolding doc_pages_def by blast
  from every [of s] obtain s' where s': "search_text s qry = Inr s'" "search_results s' = ?found s"
    by blast
  have srt: "sorted (map fst (search_results s'))"
    unfolding s'(2) by (rule found_sorted)
  have per: "\<forall>k < nat (page_count s).
           map snd (filter (\<lambda>m. fst m = int k) (search_results s')) = search_for (doc_pages s ! k) qry"
    unfolding s'(2) using found_on_page [of _ "nat (page_count s)" "\<lambda>k. search_for (doc_pages s ! k) qry"]
    by blast
  have indep: "\<forall>old c. \<exists>s''. search_text (s\<lparr>search_results := old, current_search_index := c\<rparr>) qry = Inr s''
                        \<and> search_results s'' = search_results s'"
  proof (intro allI)
    fix old c
    let ?t = "s\<lparr>search_results := old, current_search_index := c\<rparr>"
    have "?found ?t = ?found s"
      by (simp add: doc_pages_def page_count_def)
    with every [of ?t] s'(2) show "\<exists>s''. search_text ?t qry = Inr s'' \<and> search_results s'' = search_results s'"
      by simp
  qed
  show ?thesis
    using s' srt per indep by blast
qed

theorem search_results_witness:
  "''test'' \<noteq> []
   \<and> (\<exists>s'. search_text example_viewer ''test'' = Inr s'
          \<and> search_results s' = [(0, Rect 72 72 100 84), (2, Rect 72 200 100 212)])"
proof -
  have ne: "''test'' \<noteq> []" by simp
  from search_results_in_page_order [OF ne, of example_viewer]
  obtain s' where "search_text example_viewer ''test'' = Inr s'"
    "search_results s' =
       concat (map (\<lambda>k. map (Pair (int k)) (search_for (doc_pages example_viewer ! k) ''test''))
                   [0..<nat (page_count example_viewer)])"
    by blast
  then have "search_text example_viewer ''test'' = Inr s'
      \<and> search_results s' = [(0, Rect 72 72 100 84), (2, Rect 72 200 100 212)]"
    by (simp add: example_page_count upt_three example_doc_def example_page_def)
  then show ?thesis by blast
qed

text \<open>
  C8. With a non-empty match list of length \<open>n\<close> and the cursor at \<open>i\<close>, \<open>0 \<le> i < n\<close>, next
  returns with the cursor at \<open>(i + 1) mod n\<close> and previous with the cursor at
  \<open>(i - 1 + n) mod n\<close>, the match list unchanged. With an empty match list, or with no viewer
  at all, both return the state they were given.
\<close>

theorem result_navigation_wraps:
  "(search_results v \<noteq> [] \<and> 0 \<le> current_search_index v
      \<and> current_search_index v < int (length (search_results v)) \<longrightarrow>
      (\<exists>v'. go_to_next_result (Some v) = Inr (Some v')
            \<and> current_search_index v' = (current_search_index v + 1) mod int (length (search_results v))
            \<and> search_results v' = search_results v)
      \<and> (\<exists>v'. go_to_prev_result (Some v) = Inr (Some v')
            \<and> current_search_index v' =
                (current_search_index v - 1 + int (length (search_results v)))
                  mod int (length (search_results v))
            \<and> search_results v' = search_results v))
   \<and> (search_results v = [] \<longrightarrow>
        go_to_next_result (Some v) = Inr (Some v) \<and> go_to_prev_result (Some v) = Inr (Some v))
   \<and> go_to_next_result None = Inr None \<and> go_to_prev_result None = Inr None"
proof -
  have move: "\<And>j. 0 \<le> j \<Longrightarrow> j < int (length (search_results v)) \<Longrightarrow>
                \<exists>v'. go_to_result v j = Inr v' \<and> current_search_index v' = j
                      \<and> search_results v' = search_results v"
    using go_to_result_result [of v] by (metis (no_types, lifting))
  have nonempty: "search_results v \<noteq> [] \<longrightarrow>
      (\<exists>v'. go_to_next_result (Some v) = Inr (Some v')
            \<and> current_search_index v' = (current_search_index v + 1) mod int (length (search_results v))
            \<and> search_results v' = search_results v)
      \<and> (\<exists>v'. go_to_prev_result (Some v) = Inr (Some v')
            \<and> current_search_index v' =
                (current_search_index v - 1 + int (length (search_results v)))
                  mod int (length (search_results v))
            \<and> search_results v' = search_results v)"
  proof
    assume ne: "search_results v \<noteq> []"
    let ?n = "int (length (search_results v))"
    have pos: "0 < ?n" using ne by simp
    let ?a = "(current_search_index v + 1) mod ?n"
    let ?b = "(current_search_index v - 1 + ?n) mod ?n"
    have "0 \<le> ?a" "?a < ?n" "0 \<le> ?b" "?b < ?n" using pos by simp_all
    from move [OF this(1,2)] move [OF this(3,4)]
    obtain va vb where
      "go_to_result v ?a = Inr va" "current_search_index va = ?a" "search_results va = search_results v"
      "go_to_result v ?b = Inr vb" "current_search_index vb = ?b" "search_results vb = search_results v"
      by blast
    then show "(\<exists>v'. go_to_next_result (Some v) = Inr (Some v')
            \<and> current_search_index v' = ?a \<and> search_results v' = search_results v)
      \<and> (\<exists>v'. go_to_prev_result (Some v) = Inr (Some v')
            \<and> current_search_index v' = ?b \<and> search_results v' = search_results v)"
      using ne by (simp add: go_to_next_result_def go_to_prev_result_def Let_def)
  qed
  then show ?thesis
    by (simp add: go_to_next_result_def go_to_prev_result_def)
qed

lemma example_searched_fields:
  "search_results example_searched = [(0, Rect 72 72 100 84), (2, Rect 72 200 100 212)]"
  "current_search_index example_searched = 1" "current_page_index example_searched = 2"
  by (simp_all add: example_searched_def)

theorem result_navigation_witness:
  "search_results example_searched \<noteq> [] \<and> 0 \<le> current_search_index example_searched
   \<and> current_search_index example_searched < int (length (search_results example_searched))
   \<and> length (search_results example_searched) = 2 \<and> current_search_index example_searched = 1
   \<and> (\<exists>v'. go_to_next_result (Some example_searched) = Inr (Some v') \<and> current_search_index v' = 0)
   \<and> (\<exists>v'. go_to_prev_result (Some example_searched) = Inr (Some v') \<and> current_search_index v' = 0)
   \<and> go_to_next_result (Some example_viewer) = Inr (Some example_viewer)"
proof -
  note t = result_navigation_wraps [of example_searched]
  have h: "search_results example_searched \<noteq> [] \<and> 0 \<le> current_search_index example_searched
      \<and> current_search_index example_searched < int (length (search_results example_searched))"
    by (simp add: example_searched_fields)
  from t h have
    "(\<exists>v'. go_to_next_result (Some example_searched) = Inr (Some v')
            \<and> current_search_index v' = (current_search_index example_searched + 1)
                 mod int (length (search_results example_searched)))
      \<and> (\<exists>v'. go_to_prev_result (Some example_searched) = Inr (Some v')
            \<and> current_search_index v' =
                (current_search_index example_searched - 1 + int (length (search_results example_searched)))
                  mod int (length (search_results example_searched)))"
    by blast
  then have a: "(\<exists>v'. go_to_next_result (Some example_searched) = Inr (Some v') \<and> current_search_index v' = 0)
      \<and> (\<exists>v'. go_to_prev_result (Some example_searched) = Inr (Some v') \<and> current_search_index v' = 0)"
    by (simp add: example_searched_fields)
  from result_navigation_wraps [of example_viewer]
  have b: "go_to_next_result (Some example_viewer) = Inr (Some example_viewer)"
    by (simp add: example_viewer_fields)
  show ?thesis
    using h a b by (simp add: example_searched_fields)
qed

lemma recalculate_fits:
  assumes "doc s = Some d" "d \<noteq> []" "load_page d (current_page_index s) = Inr pg"
    and "\<not> is_empty (page_rect pg)"
    and "width (transform (page_rect pg) (prerotate (Matrix_scale 1 1) (rotation s))) \<noteq> 0"
    and "height (transform (page_rect pg) (prerotate (Matrix_scale 1 1) (rotation s))) \<noteq> 0"
  shows "recalculate_base_scale_and_render s =
     Inr (s\<lparr>base_scale :=
               min (real_of_int (viewport_width s)
                      / width (transform (page_rect pg) (prerotate (Matrix_scale 1 1) (rotation s))))
                   (real_of_int (viewport_height s)
                      / height (transform (page_rect pg) (prerotate (Matrix_scale 1 1) (rotation s)))),
             trace := trace s @ [Render_timer_start]\<rparr>)"
  using assms
  by (simp add: recalculate_base_scale_and_render_def request_render_False emit_def Let_def)

lemma page_count_pos_truthy: "0 \<le> p \<Longrightarrow> p < page_count s \<Longrightarrow> doc_truthy s"
  by (auto simp add: page_count_def doc_truthy_def split: option.splits if_splits)

section \<open>Displaying a page\<close>

text \<open>
  C10. \<^verbatim>\<open>display_page\<close> always returns. For a page number outside the document it returns
  the viewer unchanged. For the in-range number of the page already shown it is
  \<^verbatim>\<open>fit_to_page\<close>: the zoom factor becomes exactly 1, \<^verbatim>\<open>zoom_changed(1.0)\<close> is emitted,
  the page index stays, \<^verbatim>\<open>page_changed\<close> is not emitted, and the base scale is recomputed
  with a render scheduled (for a page whose rectangle is not empty). In every case
  \<^verbatim>\<open>page_changed\<close> is emitted exactly when the page index changed.
\<close>

theorem display_page_same_page_fits:
  "(\<not> (0 \<le> p \<and> p < page_count s) \<longrightarrow> display_page s p = Inr s)
   \<and> (0 \<le> p \<and> p < page_count s \<and> p = current_page_index s \<longrightarrow>
        display_page s p = fit_to_page s
        \<and> (\<exists>s'. display_page s p = Inr s'
              \<and> current_zoom_factor s' = 1
              \<and> current_page_index s' = current_page_index s
              \<and> Emit_page_changed \<notin> set (emitted s s')
              \<and> Emit_zoom_changed 1 \<in> set (emitted s s')
              \<and> (\<forall>pr. pr = transform (page_rect (doc_pages s ! nat p)) (prerotate (Matrix_scale 1 1) (rotation s))
                      \<and> \<not> is_empty (page_rect (doc_pages s ! nat p)) \<and> width pr \<noteq> 0 \<and> height pr \<noteq> 0 \<longrightarrow>
                    base_scale s' = min (real_of_int (viewport_width s) / width pr)
                                        (real_of_int (viewport_height s) / height pr)
                    \<and> emitted s s' = [Emit_zoom_changed 1, Render_timer_start])))
   \<and> (\<exists>s'. display_page s p = Inr s'
          \<and> (Emit_page_changed \<in> set (emitted s s') \<longleftrightarrow> current_page_index s' \<noteq> current_page_index s))"
proof (intro conjI impI)
  assume "\<not> (0 \<le> p \<and> p < page_count s)"
  then show "display_page s p = Inr s" by (auto simp add: display_page_def)
next
  assume h: "0 \<le> p \<and> p < page_count s \<and> p = current_page_index s"
  then have dt: "doc_truthy s" using page_count_pos_truthy by blast
  show "display_page s p = fit_to_page s"
    using h dt by (simp add: display_page_def)
next
  assume h: "0 \<le> p \<and> p < page_count s \<and> p = current_page_index s"
  then have dt: "doc_truthy s" using page_count_pos_truthy by blast
  have eq: "display_page s p = fit_to_page s"
    using h dt by (simp add: display_page_def)
  have "doc_truthy s \<longrightarrow> 0 \<le> current_page_index s \<and> current_page_index s < page_count s"
    using h by simp
  from fit_to_page_result [OF this] obtain s' evs where
    f: "fit_to_page s = Inr s'" "current_zoom_factor s' = 1"
      "current_page_index s' = current_page_index s"
      "trace s' = trace s @ Emit_zoom_changed 1 # evs" "Emit_page_changed \<notin> set evs"
    by blast
  have em: "emitted s s' = Emit_zoom_changed 1 # evs"
    using f(4) by (simp add: emitted_def)
  have fits: "\<forall>pr. pr = transform (page_rect (doc_pages s ! nat p)) (prerotate (Matrix_scale 1 1) (rotation s))
                      \<and> \<not> is_empty (page_rect (doc_pages s ! nat p)) \<and> width pr \<noteq> 0 \<and> height pr \<noteq> 0 \<longrightarrow>
                    base_scale s' = min (real_of_int (viewport_width s) / width pr)
                                        (real_of_int (viewport_height s) / height pr)
                    \<and> emitted s s' = [Emit_zoom_changed 1, Render_timer_start]"
  proof (intro allI impI)
    fix pr
    assume a: "pr = transform (page_rect (doc_pages s ! nat p)) (prerotate (Matrix_scale 1 1) (rotation s))
                 \<and> \<not> is_empty (page_rect (doc_pages s ! nat p)) \<and> width pr \<noteq> 0 \<and> height pr \<noteq> 0"
    from dt obtain d where d: "doc s = Some d" "d \<noteq> []"
      by (auto simp add: doc_truthy_def split: option.splits)
    let ?s1 = "s\<lparr>current_zoom_factor := 1, trace := trace s @ [Emit_zoom_changed 1]\<rparr>"
    have fp: "fit_to_page s = recalculate_base_scale_and_render ?s1"
      by (simp add: fit_to_page_def emit_def)
    have pg: "doc_pages s ! nat p = d ! nat p" using d by (simp add: doc_pages_def)
    have lp: "load_page d (current_page_index ?s1) = Inr (d ! nat p)"
      using h d by (simp add: load_page_def page_count_def)
    have d1: "doc ?s1 = Some d" using d by simp
    from a have a1: "pr = transform (page_rect (doc_pages s ! nat p)) (prerotate (Matrix_scale 1 1) (rotation s))"
      and a2: "\<not> is_empty (page_rect (doc_pages s ! nat p))"
      and a3: "width pr \<noteq> 0" and a4: "height pr \<noteq> 0"
      by blast+
    have pr: "transform (page_rect (d ! nat p)) (prerotate (Matrix_scale 1 1) (rotation s)) = pr"
      using a1 pg by simp
    have ne: "\<not> is_empty (page_rect (d ! nat p))" using a2 pg by simp
    have w: "width (transform (page_rect (d ! nat p)) (prerotate (Matrix_scale 1 1) (rotation ?s1))) \<noteq> 0"
      using a3 pr by simp
    have hh: "height (transform (page_rect (d ! nat p)) (prerotate (Matrix_scale 1 1) (rotation ?s1))) \<noteq> 0"
      using a4 pr by simp
    have "recalculate_base_scale_and_render ?s1 =
       Inr (?s1\<lparr>base_scale := min (real_of_int (viewport_width s) / width pr)
                                   (real_of_int (viewport_height s) / height pr),
                 trace := trace ?s1 @ [Render_timer_start]\<rparr>)"
      using recalculate_fits [OF d1 d(2) lp ne w hh] by (simp add: pr)
    with f(1) fp have "s' = ?s1\<lparr>base_scale := min (real_of_int (viewport_width s) / width pr)
                                   (real_of_int (viewport_height s) / height pr),
                 trace := trace ?s1 @ [Render_timer_start]\<rparr>"
      by simp
    then show "base_scale s' = min (real_of_int (viewport_width s) / width pr)
                                        (real_of_int (viewport_height s) / height pr)
                    \<and> emitted s s' = [Emit_zoom_changed 1, Render_timer_start]"
      by (simp add: emitted_def)
  qed
  show "\<exists>s'. display_page s p = Inr s'
              \<and> current_zoom_factor s' = 1
              \<and> current_page_index s' = current_page_index s
              \<and> Emit_page_changed \<notin> set (emitted s s')
              \<and> Emit_zoom_changed 1 \<in> set (emitted s s')
              \<and> (\<forall>pr. pr = transform (page_rect (doc_pages s ! nat p)) (prerotate (Matrix_scale 1 1) (rotation s))
                      \<and> \<not> is_empty (page_rect (doc_pages s ! nat p)) \<and> width pr \<noteq> 0 \<and> height pr \<noteq> 0 \<longrightarrow>
                    base_scale s' = min (real_of_int (viewport_width s) / width pr)
                                        (real_of_int (viewport_height s) / height pr)
                    \<and> emitted s s' = [Emit_zoom_changed 1, Render_timer_start])"
    using eq f(1,2,3,5) em fits by (intro exI [of _ s']) simp
next
  from display_page_result [of s p] obtain s' evs where
    "display_page s p = Inr s'" "trace s' = trace s @ evs"
    "Emit_page_changed \<in> set evs \<longleftrightarrow> current_page_index s' \<noteq> current_page_index s"
    by blast
  then show "\<exists>s'. display_page s p = Inr s'
          \<and> (Emit_page_changed \<in> set (emitted s s') \<longleftrightarrow> current_page_index s' \<noteq> current_page_index s)"
    by (auto simp add: emitted_def)
qed


lemma example_first_page: "page_rect (doc_pages example_viewer ! 0) = Rect 0 0 612 792"
  by (simp add: example_page_count example_doc_def example_page_def)

lemma example_viewport: "viewport_width example_viewer = 612" "viewport_height example_viewer = 792"
  by (simp_all add: example_viewer_def)

lemma transform_identity_example:
  "transform (Rect 0 0 612 792) (prerotate (Matrix_scale 1 1) 0) = Rect 0 0 612 792"
  by (simp add: transform_def prerotate_def Matrix_scale_def transform_x_def transform_y_def)

theorem display_page_same_page_witness:
  "\<not> (0 \<le> (3::int) \<and> 3 < page_count example_viewer)
   \<and> display_page example_viewer 3 = Inr example_viewer
   \<and> 0 \<le> (0::int) \<and> 0 < page_count example_viewer \<and> 0 = current_page_index example_viewer
   \<and> (\<exists>s'. display_page example_viewer 0 = Inr s'
          \<and> current_zoom_factor s' = 1
          \<and> Emit_page_changed \<notin> set (emitted example_viewer s')
          \<and> base_scale s' = 1
          \<and> emitted example_viewer s' = [Emit_zoom_changed 1, Render_timer_start])"
proof -
  have out: "\<not> (0 \<le> (3::int) \<and> 3 < page_count example_viewer)"
    by (simp add: example_page_count)
  have same: "0 \<le> (0::int) \<and> 0 < page_count example_viewer \<and> 0 = current_page_index example_viewer"
    by (simp add: example_page_count example_viewer_fields)
  from display_page_same_page_fits [of 3 example_viewer] out
  have a: "display_page example_viewer 3 = Inr example_viewer" by blast
  from display_page_same_page_fits [of 0 example_viewer] same
  obtain s' where s': "display_page example_viewer 0 = Inr s'" "current_zoom_factor s' = 1"
    "Emit_page_changed \<notin> set (emitted example_viewer s')"
    and fits: "\<forall>pr. pr = transform (page_rect (doc_pages example_viewer ! nat 0))
                              (prerotate (Matrix_scale 1 1) (rotation example_viewer))
                      \<and> \<not> is_empty (page_rect (doc_pages example_viewer ! nat 0))
                      \<and> width pr \<noteq> 0 \<and> height pr \<noteq> 0 \<longrightarrow>
                    base_scale s' = min (real_of_int (viewport_width example_viewer) / width pr)
                                        (real_of_int (viewport_height example_viewer) / height pr)
                    \<and> emitted example_viewer s' = [Emit_zoom_changed 1, Render_timer_start]"
    by blast
  from fits [rule_format, of "Rect 0 0 612 792"]
  have "base_scale s' = 1 \<and> emitted example_viewer s' = [Emit_zoom_changed 1, Render_timer_start]"
    by (simp add: example_first_page example_viewport example_viewer_fields
                  transform_identity_example is_empty_def width_def height_def)
  with s' have "\<exists>s'. display_page example_viewer 0 = Inr s'
          \<and> current_zoom_factor s' = 1
          \<and> Emit_page_changed \<notin> set (emitted example_viewer s')
          \<and> base_scale s' = 1
          \<and> emitted example_viewer s' = [Emit_zoom_changed 1, Render_timer_start]"
    by blast
  with out same a show ?thesis by blast
qed

section \<open>Text selection at render scale zero\<close>

text \<open>
  C5. When the render scale is zero, converting the selection rectangle raises
  \<^verbatim>\<open>ZeroDivisionError\<close> inside the \<^verbatim>\<open>try\<close> block, and \<^verbatim>\<open>_on_text_selected\<close> returns
  normally with the viewer exactly as it was: nothing is added to the trace, so the engine
  is not asked for text and the clipboard is not written.
\<close>

theorem text_selection_guarded_at_zero_scale:
  assumes "current_render_scale s = 0"
  shows "scene_rect_to_pdf_rect q (current_render_scale s) = Inl ZeroDivisionError
         \<and> on_text_selected s q = Inr s
         \<and> emitted s s = []"
  using assms on_text_selected_zero_scale [of s q]
  by (simp add: scene_rect_to_pdf_rect_cases emitted_def)

theorem text_selection_guarded_witness:
  "current_render_scale (example_viewer\<lparr>current_render_scale := 0\<rparr>) = 0
   \<and> on_text_selected (example_viewer\<lparr>current_render_scale := 0\<rparr>) (QRectF 10 10 50 20)
       = Inr (example_viewer\<lparr>current_render_scale := 0\<rparr>)"
  using text_selection_guarded_at_zero_scale
          [of "example_viewer\<lparr>current_render_scale := 0\<rparr>" "QRectF 10 10 50 20"]
  by simp

section \<open>The order of events on close\<close>

lemma close_emitted:
  "emitted s (close s) =
     (if thumbnail_loader_running s
      then [RequestInterruption ThumbnailLoaderThread, Wait ThumbnailLoaderThread] else [])
     @ (if page_render_thread_running s
        then [RequestInterruption PageRenderThread, Wait PageRenderThread] else [])
     @ (if doc_truthy s then [Doc_close] else [])
     @ [Widget_close]"
  by (simp add: close_def emitted_def emit_def doc_truthy_def Let_def)

lemma close_trace: "trace (close s) = trace s @ emitted s (close s)"
  by (simp add: close_def emitted_def emit_def doc_truthy_def Let_def)

lemma close_not_running:
  "\<not> thumbnail_loader_running (close s) \<and> \<not> page_render_thread_running (close s)"
  by (simp add: close_def emit_def Let_def)

text \<open>
  C3, as amended. \<^verbatim>\<open>close\<close> interrupts and joins the thumbnail loader first and the render
  thread second (each only if it is running), then closes the document handle, then the
  widget. Read as a trace, the document handle is closed while neither worker is running,
  and afterwards neither is running.
\<close>

theorem close_joins_workers_then_closes_doc:
  "trace (close s) = trace s @ emitted s (close s)
   \<and> emitted s (close s) =
       (if thumbnail_loader_running s
        then [RequestInterruption ThumbnailLoaderThread, Wait ThumbnailLoaderThread] else [])
       @ (if page_render_thread_running s
          then [RequestInterruption PageRenderThread, Wait PageRenderThread] else [])
       @ (if doc_truthy s then [Doc_close] else [])
       @ [Widget_close]
   \<and> doc_close_safe (thumbnail_loader_running s, page_render_thread_running s) (emitted s (close s))
   \<and> \<not> thumbnail_loader_running (close s) \<and> \<not> page_render_thread_running (close s)
   \<and> (thumbnail_loader_running s \<and> page_render_thread_running s \<longrightarrow>
        precedes (Wait ThumbnailLoaderThread) (RequestInterruption PageRenderThread) (emitted s (close s)))
   \<and> (doc_truthy s \<and> thumbnail_loader_running s \<longrightarrow>
        precedes (Wait ThumbnailLoaderThread) Doc_close (emitted s (close s)))
   \<and> (doc_truthy s \<and> page_render_thread_running s \<longrightarrow>
        precedes (Wait PageRenderThread) Doc_close (emitted s (close s)))"
  using close_trace [of s] close_not_running [of s]
  by (simp add: close_emitted precedes_def)

lemma example_busy_fields:
  "thumbnail_loader_running example_busy" "page_render_thread_running example_busy"
  "doc_truthy example_busy" "trace example_busy = []"
  by (simp_all add: example_busy_def example_viewer_def new_viewer_def doc_truthy_def example_doc_def)

theorem close_joins_workers_witness:
  "thumbnail_loader_running example_busy \<and> page_render_thread_running example_busy
   \<and> doc_truthy example_busy
   \<and> trace (close example_busy) =
       [RequestInterruption ThumbnailLoaderThread, Wait ThumbnailLoaderThread,
        RequestInterruption PageRenderThread, Wait PageRenderThread, Doc_close, Widget_close]
   \<and> doc_close_safe (True, True) (emitted example_busy (close example_busy))
   \<and> precedes (Wait ThumbnailLoaderThread) Doc_close (emitted example_busy (close example_busy))
   \<and> precedes (Wait PageRenderThread) Doc_close (emitted example_busy (close example_busy))"
proof -
  note t = close_joins_workers_then_closes_doc [of example_busy]
  from t have e: "emitted example_busy (close example_busy) =
       [RequestInterruption ThumbnailLoaderThread, Wait ThumbnailLoaderThread,
        RequestInterruption PageRenderThread, Wait PageRenderThread, Doc_close, Widget_close]"
    by (simp add: example_busy_fields)
  from t have "trace (close example_busy) = trace example_busy @ emitted example_busy (close example_busy)"
    by blast
  then have tr: "trace (close example_busy) =
       [RequestInterruption ThumbnailLoaderThread, Wait ThumbnailLoaderThread,
        RequestInterruption PageRenderThread, Wait PageRenderThread, Doc_close, Widget_close]"
    by (simp only: e example_busy_fields append_Nil)
  from t have "doc_close_safe (thumbnail_loader_running example_busy, page_render_thread_running example_busy)
                 (emitted example_busy (close example_busy))"
    by blast
  then have safe: "doc_close_safe (True, True) (emitted example_busy (close example_busy))"
    by (simp add: example_busy_fields)
  from t example_busy_fields
  have p1: "precedes (Wait ThumbnailLoaderThread) Doc_close (emitted example_busy (close example_busy))"
    and p2: "precedes (Wait PageRenderThread) Doc_close (emitted example_busy (close example_busy))"
    by blast+
  show ?thesis
    using example_busy_fields tr safe p1 p2 by blast
qed

theorem close_order_counterexample:
  "emitted example_busy (close example_busy) =
     [RequestInterruption ThumbnailLoaderThread, Wait ThumbnailLoaderThread,
      RequestInterruption PageRenderThread, Wait PageRenderThread, Doc_close, Widget_close]
   \<and> \<not> precedes (Wait PageRenderThread) (RequestInterruption ThumbnailLoaderThread)
          (emitted example_busy (close example_busy))
   \<and> precedes (Wait ThumbnailLoaderThread) (RequestInterruption PageRenderThread)
          (emitted example_busy (close example_busy))"
  by (simp add: close_emitted example_busy_fields precedes_def)

section \<open>One tab per path string\<close>

lemma find_tab_None: "find_tab vs p i = None \<longleftrightarrow> p \<notin> set (map file_path vs)"
  by (induction vs arbitrary: i) auto

lemma find_tab_Some:
  "find_tab vs p i = Some j \<Longrightarrow>
     i \<le> j \<and> j < i + int (length vs) \<and> file_path (vs ! nat (j - i)) = p"
proof (induction vs arbitrary: i)
  case Nil
  then show ?case by simp
next
  case (Cons v vs)
  show ?case
  proof (cases "file_path v = p")
    case True
    with Cons.prems show ?thesis by simp
  next
    case False
    with Cons.prems have "find_tab vs p (i + 1) = Some j" by simp
    from Cons.IH [OF this] have j: "i + 1 \<le> j" "j < i + 1 + int (length vs)"
      "file_path (vs ! nat (j - (i + 1))) = p" by simp_all
    have "nat (j - i) = Suc (nat (j - (i + 1)))" using j(1) by simp
    then show ?thesis using j by simp
  qed
qed

lemma refresh_thumbnails_path: "file_path (refresh_thumbnails v) = file_path v"
  by (simp add: refresh_thumbnails_def emit_def Let_def)

lemma add_new_tab_present:
  assumes "p \<in> set (map file_path (tabs w))"
  shows "tabs (add_new_tab fitz_open w p) = tabs w
         \<and> 0 \<le> current_index (add_new_tab fitz_open w p)
         \<and> current_index (add_new_tab fitz_open w p) < int (length (tabs w))
         \<and> file_path (tabs w ! nat (current_index (add_new_tab fitz_open w p))) = p"
proof -
  from assms obtain j where j: "find_tab (tabs w) p 0 = Some j"
    using find_tab_None [of "tabs w" p 0] by (cases "find_tab (tabs w) p 0") auto
  from find_tab_Some [OF j] show ?thesis
    by (simp add: add_new_tab_def j)
qed

lemma add_new_tab_distinct:
  assumes "distinct (map file_path (tabs w))"
  shows "distinct (map file_path (tabs (add_new_tab fitz_open w p)))"
proof (cases "find_tab (tabs w) p 0")
  case (Some j)
  then show ?thesis using assms by (simp add: add_new_tab_def)
next
  case None
  then have "p \<notin> set (map file_path (tabs w))" by (simp add: find_tab_None)
  then show ?thesis
    using assms None
    by (simp add: add_new_tab_def Let_def refresh_thumbnails_path new_viewer_def)
qed

lemma close_tab_distinct:
  assumes "distinct (map file_path (tabs w))"
  shows "distinct (map file_path (tabs (close_tab w i c)))"
proof (cases "0 \<le> i \<and> i < int (length (tabs w))")
  case False
  then show ?thesis using assms by (auto simp add: close_tab_def)
next
  case True
  have "distinct (take (nat i) (map file_path (tabs w)) @ drop (Suc (nat i)) (map file_path (tabs w)))"
    using assms by (simp add: set_take_disj_set_drop_if_distinct)
  then show ?thesis using True by (simp add: close_tab_def take_map drop_map)
qed

lemma tab_steps_distinct:
  "distinct (map file_path (tabs w)) \<Longrightarrow>
   distinct (map file_path (tabs (foldl (tab_step fitz_open) w reqs)))"
proof (induction reqs arbitrary: w)
  case Nil
  then show ?case by simp
next
  case (Cons r reqs)
  have "distinct (map file_path (tabs (tab_step fitz_open w r)))"
    using Cons.prems by (cases r) (simp_all add: add_new_tab_distinct close_tab_distinct)
  from Cons.IH [OF this] show ?case by simp
qed

lemma add_new_tab_absent:
  assumes "p \<notin> set (map file_path (tabs w))"
  shows "map file_path (tabs (add_new_tab fitz_open w p)) =
           map file_path (tabs w) @ (if doc_truthy (new_viewer p (fitz_open p)) then [p] else [])"
proof -
  from assms have "find_tab (tabs w) p 0 = None" by (simp add: find_tab_None)
  then show ?thesis
    by (simp add: add_new_tab_def Let_def refresh_thumbnails_path new_viewer_def)
qed

text \<open>
  C4, as amended. Tabs are keyed by the path string exactly as given: after any sequence of
  add and close requests no two tabs have the same path string; adding a path string that a
  tab already has opens nothing and makes a tab with that path the current one; adding any
  other path string appends one tab when the document opens (with at least one page) and
  none when it does not.
\<close>

theorem one_tab_per_path_string:
  "distinct (map file_path (tabs (tab_run fitz_open reqs)))
   \<and> (p \<in> set (map file_path (tabs w)) \<longrightarrow>
        tabs (add_new_tab fitz_open w p) = tabs w
        \<and> 0 \<le> current_index (add_new_tab fitz_open w p)
        \<and> current_index (add_new_tab fitz_open w p) < int (length (tabs w))
        \<and> file_path (tabs w ! nat (current_index (add_new_tab fitz_open w p))) = p)
   \<and> (p \<notin> set (map file_path (tabs w)) \<longrightarrow>
        map file_path (tabs (add_new_tab fitz_open w p)) =
          map file_path (tabs w) @ (if doc_truthy (new_viewer p (fitz_open p)) then [p] else []))"
proof -
  have "distinct (map file_path (tabs (tab_run fitz_open reqs)))"
    unfolding tab_run_def by (rule tab_steps_distinct) (simp add: no_tabs_def)
  then show ?thesis
    using add_new_tab_present [of p w fitz_open] add_new_tab_absent [of p w fitz_open] by blast
qed

lemma example_one_tab:
  "map file_path (tabs (tab_run example_open [Add_tab ''a.pdf''])) = [''a.pdf'']"
  by (simp add: tab_run_def no_tabs_def add_new_tab_def example_open_def new_viewer_def
                doc_truthy_def example_doc_def refresh_thumbnails_def emit_def Let_def)

theorem one_tab_per_path_string_witness:
  "''a.pdf'' \<in> set (map file_path (tabs (tab_run example_open [Add_tab ''a.pdf''])))
   \<and> tabs (add_new_tab example_open (tab_run example_open [Add_tab ''a.pdf'']) ''a.pdf'')
       = tabs (tab_run example_open [Add_tab ''a.pdf''])
   \<and> current_index (add_new_tab example_open (tab_run example_open [Add_tab ''a.pdf'']) ''a.pdf'') = 0
   \<and> ''b.pdf'' \<notin> set (map file_path (tabs (tab_run example_open [Add_tab ''a.pdf''])))
   \<and> map file_path (tabs (add_new_tab example_open (tab_run example_open [Add_tab ''a.pdf'']) ''b.pdf''))
       = [''a.pdf'']
   \<and> distinct (map file_path (tabs (tab_run example_open
                  [Add_tab ''a.pdf'', Add_tab ''./a.pdf'', Close_tab 0 0, Add_tab ''a.pdf''])))"
proof -
  let ?w = "tab_run example_open [Add_tab ''a.pdf'']"
  have inn: "''a.pdf'' \<in> set (map file_path (tabs ?w))" by (simp only: example_one_tab) simp
  have out: "''b.pdf'' \<notin> set (map file_path (tabs ?w))" by (simp only: example_one_tab) simp
  have len: "length (tabs ?w) = 1"
    using arg_cong [OF example_one_tab, of length] by simp
  note t = one_tab_per_path_string [of example_open _ "''a.pdf''" ?w]
  from t inn have a: "tabs (add_new_tab example_open ?w ''a.pdf'') = tabs ?w"
    and b: "0 \<le> current_index (add_new_tab example_open ?w ''a.pdf'')"
           "current_index (add_new_tab example_open ?w ''a.pdf'') < int (length (tabs ?w))"
    by blast+
  from b len have c: "current_index (add_new_tab example_open ?w ''a.pdf'') = 0" by simp
  from one_tab_per_path_string [of example_open _ "''b.pdf''" ?w] out
  have "map file_path (tabs (add_new_tab example_open ?w ''b.pdf'')) =
          map file_path (tabs ?w) @ (if doc_truthy (new_viewer ''b.pdf'' (example_open ''b.pdf'')) then [''b.pdf''] else [])"
    by blast
  then have d: "map file_path (tabs (add_new_tab example_open ?w ''b.pdf'')) = [''a.pdf'']"
    by (simp add: example_one_tab example_open_def new_viewer_def doc_truthy_def)
  from one_tab_per_path_string
         [of example_open "[Add_tab ''a.pdf'', Add_tab ''./a.pdf'', Close_tab 0 0, Add_tab ''a.pdf'']" "''a.pdf''" ?w]
  have e: "distinct (map file_path (tabs (tab_run example_open
                  [Add_tab ''a.pdf'', Add_tab ''./a.pdf'', Close_tab 0 0, Add_tab ''a.pdf''])))"
    by blast
  show ?thesis using inn a c out d e by blast
qed

theorem same_file_two_tabs_counterexample:
  "map file_path (tabs (tab_run example_open [Add_tab ''a.pdf'', Add_tab ''./a.pdf'']))
     = [''a.pdf'', ''./a.pdf'']
   \<and> normalize_path ''./a.pdf'' = normalize_path ''a.pdf''
   \<and> example_open ''./a.pdf'' = example_open ''a.pdf''"
  by (simp add: tab_run_def no_tabs_def add_new_tab_def example_open_def new_viewer_def
                doc_truthy_def example_doc_def refresh_thumbnails_def emit_def Let_def)

lemma prerotate_right_angles:
  "prerotate m 0 = m"
  "prerotate m 90 = Matrix (mc m) (md m) (- ma m) (- mb m) (me m) (mf m)"
  "prerotate m 180 = Matrix (- ma m) (- mb m) (- mc m) (- md m) (me m) (mf m)"
  "prerotate m 270 = Matrix (- mc m) (- md m) (ma m) (mb m) (me m) (mf m)"
  "prerotate m (- 90) = Matrix (- mc m) (- md m) (ma m) (mb m) (me m) (mf m)"
  "prerotate m (- 180) = Matrix (- ma m) (- mb m) (- mc m) (- md m) (me m) (mf m)"
  "prerotate m (- 270) = Matrix (mc m) (md m) (- ma m) (- mb m) (me m) (mf m)"
  by (simp_all add: prerotate_def)

lemma example_rotated_fields:
  "doc example_rotated = Some example_doc" "rotation example_rotated = 90"
  "current_render_scale example_rotated = 2" "current_page_index example_rotated = 0"
  "search_results example_rotated = [(0, Rect 10 20 30 50)]"
  "current_search_index example_rotated = 0" "trace example_rotated = []"
  by (simp_all add: example_rotated_def example_viewer_fields)

lemma example_doc_first: "example_doc \<noteq> []" "load_page example_doc 0 = Inr (example_page [Rect 72 72 100 84])"
  "get_text (example_page ms) clip = []"
  by (simp_all add: example_doc_def load_page_def example_page_def)

lemma undo_rotation_example:
  "undo_rotation (Rect 10 20 30 50) 90 = Rect 20 (- 30) 50 (- 10)"
  by (simp add: undo_rotation_def transform_def prerotate_right_angles Matrix_scale_def
                transform_x_def transform_y_def)

section \<open>Highlights and selections under rotation\<close>

text \<open>
  C1, evaluated on the code. The viewer is turned by 90 degrees and rendered at scale 2; the
  match \<open>Rect 10 20 30 50\<close> is on the page shown. \<^verbatim>\<open>_update_highlights\<close> places its
  highlight at the match times 2, without the rotation. Selecting exactly that highlight
  rectangle, \<^verbatim>\<open>_on_text_selected\<close> divides by 2 and undoes the rotation, and asks the engine
  for the text in \<open>Rect 20 (-30) 50 (-10)\<close>, which is not the match. The page bitmap itself
  is drawn under \<open>render_matrix\<close>, which does rotate.
\<close>

theorem rotated_highlight_is_not_selected_back:
  "update_highlights example_rotated =
     Inr (example_rotated\<lparr>highlights := [Highlight (QRectF 20 40 40 60) True]\<rparr>)
   \<and> on_text_selected example_rotated (QRectF 20 40 40 60) =
       Inr (example_rotated\<lparr>trace := [Page_get_text 0 (Rect 20 (- 30) 50 (- 10))]\<rparr>)
   \<and> Rect 20 (- 30) 50 (- 10) \<noteq> Rect 10 20 30 50
   \<and> transform (Rect 10 20 30 50) (render_matrix 2 90) = Rect (- 100) 20 (- 40) 60"
proof -
  have a: "update_highlights example_rotated =
     Inr (example_rotated\<lparr>highlights := [Highlight (QRectF 20 40 40 60) True]\<rparr>)"
    by (simp add: update_highlights_def example_rotated_fields py_getitem_def rect_mul_def
                  width_def height_def Let_def)
  have b: "on_text_selected example_rotated (QRectF 20 40 40 60) =
       Inr (example_rotated\<lparr>trace := [Page_get_text 0 (Rect 20 (- 30) 50 (- 10))]\<rparr>)"
    using on_text_selected_nonzero [of example_rotated example_doc "example_page [Rect 72 72 100 84]"
                                       "QRectF 20 40 40 60"]
    by (simp add: example_rotated_fields example_doc_first right_def bottom_def undo_rotation_example)
  have c: "transform (Rect 10 20 30 50) (render_matrix 2 90) = Rect (- 100) 20 (- 40) 60"
    by (simp add: render_matrix_def transform_def prerotate_right_angles Matrix_scale_def
                  transform_x_def transform_y_def)
  show ?thesis using a b c by simp
qed

text \<open>
  Without rotation the two directions do invert each other: the highlight of a match,
  selected again, is the match.
\<close>

lemma unrotated_round_trip:
  assumes "0 < sc" "x0 r \<le> x1 r" "y0 r \<le> y1 r"
  shows "scene_rect_to_pdf_rect
           (QRectF (x0 (rect_mul r sc)) (y0 (rect_mul r sc)) (width (rect_mul r sc)) (height (rect_mul r sc))) sc
         = Inr r \<and> undo_rotation r 0 = r"
proof -
  obtain a b c d where r: "r = Rect a b c d" by (cases r)
  have le: "a * sc \<le> c * sc" "b * sc \<le> d * sc"
    using assms r by (simp_all add: mult_right_mono)
  have w: "max 0 (c * sc - a * sc) = c * sc - a * sc" and h: "max 0 (d * sc - b * sc) = d * sc - b * sc"
    using le by simp_all
  have "width (rect_mul r sc) = c * sc - a * sc" "height (rect_mul r sc) = d * sc - b * sc"
    by (simp_all only: r rect_mul_def width_def height_def rect.sel w h)
  then show ?thesis
    using assms(1) by (simp add: r scene_rect_to_pdf_rect_cases rect_mul_def right_def bottom_def
                                 undo_rotation_def)
qed

lemma transform_Rect:
  "transform (Rect a b c d) m =
     Rect (Min {transform_x m a b, transform_x m c b, transform_x m a d, transform_x m c d})
          (Min {transform_y m a b, transform_y m c b, transform_y m a d, transform_y m c d})
          (Max {transform_x m a b, transform_x m c b, transform_x m a d, transform_x m c d})
          (Max {transform_y m a b, transform_y m c b, transform_y m a d, transform_y m c d})"
  by (simp add: transform_def)

text \<open>
  The selection path of \<^verbatim>\<open>_on_text_selected\<close> (divide by the scale, undo the rotation) does
  invert the matrix under which the page bitmap is drawn, for each of the four right angles.
\<close>

lemma selection_inverts_render_matrix:
  assumes "0 < sc" "x0 r \<le> x1 r" "y0 r \<le> y1 r" "right_angle rot"
  shows "undo_rotation
           (Rect (x0 (transform r (render_matrix sc rot)) / sc) (y0 (transform r (render_matrix sc rot)) / sc)
                 (x1 (transform r (render_matrix sc rot)) / sc) (y1 (transform r (render_matrix sc rot)) / sc))
           rot = r"
proof -
  obtain a b c d where r: "r = Rect a b c d" by (cases r)
  have ab: "a \<le> c" "b \<le> d" using assms r by simp_all
  have le: "sc * a \<le> sc * c" "sc * b \<le> sc * d"
    using assms(1) ab by (simp_all add: mult_left_mono)
  have mm: "min (sc * a) (sc * c) = sc * a" "max (sc * a) (sc * c) = sc * c"
    "min (sc * b) (sc * d) = sc * b" "max (sc * b) (sc * d) = sc * d"
    "min (sc * c) (sc * a) = sc * a" "max (sc * c) (sc * a) = sc * c"
    "min (sc * d) (sc * b) = sc * b" "max (sc * d) (sc * b) = sc * d"
    "min a c = a" "max a c = c" "min b d = b" "max b d = d"
    "min c a = a" "max c a = c" "min d b = b" "max d b = d"
    "min (- (sc * a)) (- (sc * c)) = - (sc * c)" "max (- (sc * a)) (- (sc * c)) = - (sc * a)"
    "min (- (sc * b)) (- (sc * d)) = - (sc * d)" "max (- (sc * b)) (- (sc * d)) = - (sc * b)"
    "min (- (sc * c)) (- (sc * a)) = - (sc * c)" "max (- (sc * c)) (- (sc * a)) = - (sc * a)"
    "min (- (sc * d)) (- (sc * b)) = - (sc * d)" "max (- (sc * d)) (- (sc * b)) = - (sc * b)"
    "min (- a) (- c) = - c" "max (- a) (- c) = - a" "min (- b) (- d) = - d" "max (- b) (- d) = - b"
    "min (- c) (- a) = - c" "max (- c) (- a) = - a" "min (- d) (- b) = - d" "max (- d) (- b) = - b"
    using le ab by (simp_all add: min_def max_def)
  have nz: "sc \<noteq> 0" using assms(1) by simp
  from assms(4) consider "rot = 0" | "rot = 90" | "rot = 180" | "rot = 270"
    by (auto simp add: right_angle_def)
  then show ?thesis
  proof cases
    case 1
    then show ?thesis
      using nz by (simp add: r undo_rotation_def render_matrix_def prerotate_right_angles
                             Matrix_scale_def transform_Rect transform_x_def transform_y_def mm)
  next
    case 2
    then show ?thesis
      using nz by (simp add: r undo_rotation_def render_matrix_def prerotate_right_angles
                             Matrix_scale_def transform_Rect transform_x_def transform_y_def mm)
  next
    case 3
    then show ?thesis
      using nz by (simp add: r undo_rotation_def render_matrix_def prerotate_right_angles
                             Matrix_scale_def transform_Rect transform_x_def transform_y_def mm)
  next
    case 4
    then show ?thesis
      using nz by (simp add: r undo_rotation_def render_matrix_def prerotate_right_angles
                             Matrix_scale_def transform_Rect transform_x_def transform_y_def mm)
  qed
qed

end
